(* ===== verification/Prelude.thy ===== *)
theory Prelude
  imports Main "HOL-Library.Word" "HOL-Library.Sublist"
begin

text \<open>
  What every component theory shares: the byte constants that the C++ sources write as
  character literals, the size of the machine integers of the build (LP64: \<open>int\<close> has 32 bits,
  \<open>long long\<close>, \<open>int64_t\<close> and \<open>size_t\<close> have 64), the fact collections that the
  component proofs pass to the simplifier, and generic lemmas on lists.  A C++
  \<open>std::string\<close> is a HOL \<open>string\<close>: a list of bytes (type \<open>char\<close> has exactly 256 values).
\<close>

section \<open>Fact collections\<close>

named_theorems cxx_simps "evaluation rules for the C++ string primitives"
named_theorems route_simps "evaluation rules for request routing"

section \<open>Bytes\<close>

abbreviation NUL :: char where "NUL \<equiv> CHR 0x00"
abbreviation HT :: char where "HT \<equiv> CHR 0x09"
abbreviation LF :: char where "LF \<equiv> CHR 0x0A"
abbreviation VT :: char where "VT \<equiv> CHR 0x0B"
abbreviation FF :: char where "FF \<equiv> CHR 0x0C"
abbreviation CR :: char where "CR \<equiv> CHR 0x0D"
abbreviation SP :: char where "SP \<equiv> CHR 0x20"
abbreviation DQ :: char where "DQ \<equiv> CHR 0x22"
abbreviation BS :: char where "BS \<equiv> CHR 0x5C"

abbreviation CRLF :: string where "CRLF \<equiv> [CR, LF]"

text \<open>The code of a byte, \<open>(unsigned char)c\<close>, and back, \<open>(char)n\<close>, which reduces modulo 256.\<close>

definition byte :: "char \<Rightarrow> nat" where
  "byte c = of_char c"

definition chr :: "nat \<Rightarrow> char" where
  "chr n = char_of n"

lemma byte_less [simp]: "byte c < 256"
  by (simp add: byte_def)

lemma byte_Char [simp]:
  "byte (Char b0 b1 b2 b3 b4 b5 b6 b7) =
    of_bool b0 + 2 * (of_bool b1 + 2 * (of_bool b2 + 2 * (of_bool b3 + 2 * (of_bool b4
      + 2 * (of_bool b5 + 2 * (of_bool b6 + 2 * of_bool b7))))))"
  by (simp add: byte_def)

lemma chr_byte [simp]: "chr (byte c) = c"
  by (simp add: byte_def chr_def)

lemma byte_chr [simp]: "byte (chr n) = n mod 256"
  by (simp add: byte_def chr_def)

lemma byte_inject [simp]: "byte c = byte d \<longleftrightarrow> c = d"
  by (metis chr_byte)

lemma chr_eqD: "chr m = chr n \<Longrightarrow> m mod 256 = n mod 256"
  by (metis byte_chr)

lemma chr_eq_iff: "chr n = c \<longleftrightarrow> n mod 256 = byte c" "c = chr n \<longleftrightarrow> n mod 256 = byte c"
  by (metis byte_chr chr_byte mod_mod_trivial chr_def of_char_of)+

section \<open>Machine integers\<close>

definition INT_MAX :: int where "INT_MAX = 2147483647"
definition INT_MIN :: int where "INT_MIN = -2147483648"
definition LLONG_MAX :: int where "LLONG_MAX = 9223372036854775807"
definition LLONG_MIN :: int where "LLONG_MIN = -9223372036854775808"
definition ULLONG_MOD :: nat where "ULLONG_MOD = 18446744073709551616"

text \<open>\<open>size_t\<close> arithmetic: addition modulo \<open>2 ^ 64\<close>.\<close>

definition size_add :: "nat \<Rightarrow> nat \<Rightarrow> nat" where
  "size_add a b = (a + b) mod ULLONG_MOD"

lemma size_add_small: "a + b < ULLONG_MOD \<Longrightarrow> size_add a b = a + b"
  by (simp add: size_add_def)

definition int64_range :: "int \<Rightarrow> bool" where
  "int64_range i \<longleftrightarrow> LLONG_MIN \<le> i \<and> i \<le> LLONG_MAX"

section \<open>Lists\<close>

lemma takeWhile_append_stop:
  assumes "\<forall>x \<in> set xs. P x" and "ys = [] \<or> \<not> P (hd ys)"
  shows "takeWhile P (xs @ ys) = xs" and "dropWhile P (xs @ ys) = ys"
  using assms by (induction xs) (cases ys; auto)+

lemma dropWhile_stop: "xs = [] \<or> \<not> P (hd xs) \<Longrightarrow> dropWhile P xs = xs"
  by (cases xs) auto

lemma filter_eq_self: "(\<And>x. x \<in> set xs \<Longrightarrow> P x) \<Longrightarrow> filter P xs = xs"
  by (induction xs) auto

lemma split_at_unique:
  "c \<notin> set xs \<Longrightarrow> c \<notin> set ys \<Longrightarrow> prefix (xs @ [c]) (ys @ c # zs) \<Longrightarrow> xs = ys"
proof (induction xs arbitrary: ys)
  case Nil
  then show ?case by (cases ys) auto
next
  case (Cons x xs)
  then show ?case by (cases ys) auto
qed

lemma distinct_map_filter: "distinct (map f xs) \<Longrightarrow> distinct (map f (filter P xs))"
  by (induction xs) auto

lemma length_filter_split:
  "length xs = length (filter P xs) + length (filter (\<lambda>x. \<not> P x) xs)"
  by (induction xs) auto

section \<open>Codecs\<close>

text \<open>
  The contract of an encoder and its decoder on the values that satisfy \<open>ok\<close>: what is decoded
  is what was encoded.  Base64, URL escaping, decimal numbers and JSON strings provide it.
\<close>

locale codec =
  fixes ok :: "'a \<Rightarrow> bool" and enc :: "'a \<Rightarrow> string" and dec :: "string \<Rightarrow> 'a"
  assumes dec_enc: "ok x \<Longrightarrow> dec (enc x) = x"
begin

lemma enc_inj: "ok x \<Longrightarrow> ok y \<Longrightarrow> enc x = enc y \<longleftrightarrow> x = y"
  by (metis dec_enc)

lemma inj_on_enc: "inj_on enc {x. ok x}"
  by (rule inj_onI) (simp add: enc_inj)

lemma dec_map: "(\<And>x. x \<in> set xs \<Longrightarrow> ok x) \<Longrightarrow> map dec (map enc xs) = xs"
  by (induction xs) (auto simp: dec_enc)

end

section \<open>Simulations\<close>

text \<open>
  The contract of an abstraction between step relations: each step of the concrete system is a step
  of the abstract one or none.  Then what holds of the abstract runs holds of the concrete ones.
\<close>

locale simulation =
  fixes step :: "'s \<Rightarrow> 's \<Rightarrow> bool" and abs_step :: "'t \<Rightarrow> 't \<Rightarrow> bool" and proj :: "'s \<Rightarrow> 't"
  assumes sim: "step s s' \<Longrightarrow> proj s' = proj s \<or> abs_step (proj s) (proj s')"
begin

lemma run: "step\<^sup>*\<^sup>* s s' \<Longrightarrow> abs_step\<^sup>*\<^sup>* (proj s) (proj s')"
proof (induction rule: rtranclp_induct)
  case (step y z)
  then show ?case using sim[of y z] by (auto intro: rtranclp.rtrancl_into_rtrancl)
qed simp

lemma kept:
  assumes "step\<^sup>*\<^sup>* s s'" "P (proj s)" and "\<And>t t'. abs_step t t' \<Longrightarrow> P t \<Longrightarrow> P t'"
  shows "P (proj s')"
  using run[OF assms(1)] assms(2,3) by (induction rule: rtranclp_induct) blast+

end

end
