(* ===== verification/Cxx_Std.thy ===== *)
theory Cxx_Std
  imports Prelude
begin

text \<open>
  The parts of the C++ standard library that the sources call: \<open>std::string::find\<close> and
  \<open>substr\<close>, \<open>c_str\<close> as the C interfaces read it, \<open>std::getline\<close> on a
  string stream, \<open>isspace\<close> and \<open>tolower\<close> in the "C" locale, decimal output of an integer,
  and the conversions \<open>std::stoi\<close>, \<open>std::stoll\<close>, \<open>std::stoull\<close> with the
  exceptions they throw.  The position \<open>std::string::npos\<close> is \<open>None\<close>.
\<close>

section \<open>std::string\<close>

text \<open>Offset of the first occurrence of \<open>pat\<close> in a string.\<close>

fun find_sub :: "string \<Rightarrow> string \<Rightarrow> nat option" where
  "find_sub pat [] = (if pat = [] then Some 0 else None)"
| "find_sub pat (c # s) =
     (if prefix pat (c # s) then Some 0 else map_option Suc (find_sub pat s))"

text \<open>\<open>s.find(pat, pos)\<close>, and \<open>s.find(c, pos)\<close> for a single character.\<close>

definition str_find :: "string \<Rightarrow> string \<Rightarrow> nat \<Rightarrow> nat option" where
  "str_find s pat pos =
     (if length s < pos then None else map_option (\<lambda>k. pos + k) (find_sub pat (drop pos s)))"

definition find_char :: "string \<Rightarrow> char \<Rightarrow> nat \<Rightarrow> nat option" where
  "find_char s c pos = str_find s [c] pos"

text \<open>
  \<open>s.substr(pos, n)\<close> and \<open>s.substr(pos)\<close>; the library throws for \<open>pos > s.size()\<close>, which no
  call of the sources reaches: each starts at a position that a search has found, or just
  after the text that it has found.
\<close>

definition substr :: "string \<Rightarrow> nat \<Rightarrow> nat \<Rightarrow> string" where
  "substr s pos n = take n (drop pos s)"

definition substr_from :: "string \<Rightarrow> nat \<Rightarrow> string" where
  "substr_from s pos = drop pos s"

text \<open>What a C interface sees of \<open>s.c_str()\<close> with length -1: the bytes before the first NUL.\<close>

definition c_str :: "string \<Rightarrow> string" where
  "c_str s = takeWhile (\<lambda>c. c \<noteq> NUL) s"

lemma find_sub_Some:
  "find_sub pat s = Some k \<Longrightarrow> \<exists>ys zs. s = ys @ pat @ zs \<and> length ys = k"
proof (induction s arbitrary: k)
  case Nil
  then show ?case by (auto split: if_splits)
next
  case (Cons c s)
  show ?case
  proof (cases "prefix pat (c # s)")
    case True
    with Cons.prems show ?thesis by (auto simp: prefix_def)
  next
    case False
    with Cons.prems obtain j where "find_sub pat s = Some j" "k = Suc j" by auto
    with Cons.IH obtain ys zs where "s = ys @ pat @ zs" "length ys = j" by blast
    then have "c # s = (c # ys) @ pat @ zs" "length (c # ys) = k" using \<open>k = Suc j\<close> by auto
    then show ?thesis by blast
  qed
qed

lemma find_sub_bound: "find_sub pat s = Some k \<Longrightarrow> k + length pat \<le> length s"
  by (auto dest: find_sub_Some)

lemma find_sub_None_prefix: "find_sub pat s = None \<Longrightarrow> \<not> prefix pat s"
  by (cases s) (auto split: if_splits)

lemma find_sub_append_at:
  assumes "\<And>ys' c zs'. ys = ys' @ c # zs' \<Longrightarrow> \<not> prefix pat (c # zs' @ pat @ zs)"
  shows "find_sub pat (ys @ pat @ zs) = Some (length ys)"
  using assms
proof (induction ys)
  case Nil
  have "prefix pat (pat @ zs)" by simp
  then show ?case by (cases "pat @ zs") auto
next
  case (Cons c ys)
  have "find_sub pat (ys @ pat @ zs) = Some (length ys)"
    by (rule Cons.IH) (metis Cons.prems append_Cons)
  moreover have "\<not> prefix pat (c # ys @ pat @ zs)"
    using Cons.prems[of "[]" c ys] by simp
  ultimately show ?case by simp
qed

lemma find_sub_char:
  "find_sub [c] s = (if c \<in> set s then Some (length (takeWhile (\<lambda>d. d \<noteq> c) s)) else None)"
  by (induction s) auto

lemma find_char_0_append:
  "c \<notin> set xs \<Longrightarrow> find_char (xs @ c # ys) c 0 = Some (length xs)"
  by (simp add: find_char_def str_find_def find_sub_char takeWhile_append)

lemma find_char_append:
  "c \<notin> set xs \<Longrightarrow> length ws = n \<Longrightarrow> find_char (ws @ xs @ c # ys) c n = Some (n + length xs)"
  by (auto simp: find_char_def str_find_def find_sub_char takeWhile_append)

lemma str_find_bound: "str_find s pat pos = Some k \<Longrightarrow> pos \<le> k \<and> k + length pat \<le> length s"
  by (auto simp: str_find_def dest: find_sub_bound split: if_splits)

lemma str_find_at: "str_find s pat pos = Some k \<Longrightarrow> prefix pat (drop k s)"
  by (auto simp: str_find_def prefix_def dest!: find_sub_Some split: if_splits)
    (metis append_eq_conv_conj drop_drop add.commute)

lemma c_str_id: "NUL \<notin> set s \<Longrightarrow> c_str s = s"
  unfolding c_str_def by (subst takeWhile_eq_all_conv) auto

lemma c_str_no_NUL [simp]: "NUL \<notin> set (c_str s)"
  by (auto simp: c_str_def dest: set_takeWhileD)

lemma c_str_idem [simp]: "c_str (c_str s) = c_str s"
  by (simp add: c_str_id)

lemma c_str_empty_iff: "c_str s = [] \<longleftrightarrow> s = [] \<or> hd s = NUL"
  by (cases s) (auto simp: c_str_def)

lemma find_sub_prefix: "prefix pat s \<Longrightarrow> find_sub pat s = Some 0"
  by (cases s) auto

lemma find_sub_append: "find_sub pat s = Some k \<Longrightarrow> find_sub pat (s @ t) = Some k"
proof (induction s arbitrary: k)
  case Nil
  then show ?case by (auto simp: find_sub_prefix split: if_splits)
next
  case (Cons c s)
  show ?case
  proof (cases "prefix pat (c # s)")
    case True
    then have "prefix pat (c # s @ t)" by (metis append_Cons prefix_prefix)
    with True Cons.prems show ?thesis by simp
  next
    case False
    with Cons.prems obtain j where j: "find_sub pat s = Some j" "k = Suc j" by auto
    from j(1) have "\<not> prefix pat (c # s @ t)"
      using False find_sub_bound[OF j(1)]
      by (metis append_Cons le_add2 le_trans length_Cons le_SucI prefix_append prefix_length_prefix prefixI)
    then show ?thesis using j Cons.IH by simp
  qed
qed

lemma find_sub_skip:
  assumes "c \<notin> set xs"
  shows "find_sub (c # p) (xs @ ys) = map_option (\<lambda>k. length xs + k) (find_sub (c # p) ys)"
  using assms by (induction xs; cases "find_sub (c # p) ys") auto

lemma str_find_0: "str_find s pat 0 = find_sub pat s"
  by (cases "find_sub pat s") (auto simp: str_find_def)

lemma str_find_drop: "str_find (xs @ ys) pat (length xs) = map_option (\<lambda>k. length xs + k) (find_sub pat ys)"
  by (simp add: str_find_def)

text \<open>Texts made of lines: the first line start that satisfies the rest of the pattern.\<close>

abbreviation crlf_lines :: "string list \<Rightarrow> string" where
  "crlf_lines ls \<equiv> concat (map (\<lambda>l. CRLF @ l) ls)"

lemma find_crlf_lines:
  assumes "\<forall>l \<in> set pre. CR \<notin> set l" "\<forall>l \<in> set pre. \<forall>rest. \<not> prefix p (l @ CR # rest)" "prefix p t"
  shows "find_sub (CRLF @ p) (crlf_lines pre @ CRLF @ t) = Some (length (crlf_lines pre))"
  using assms
proof (induction pre)
  case Nil
  then show ?case by (simp add: find_sub_prefix)
next
  case (Cons l pre)
  let ?rest = "crlf_lines pre @ CRLF @ t"
  obtain r where r: "?rest = CR # r" by (cases pre) auto
  have "\<not> prefix (CRLF @ p) (CRLF @ l @ ?rest)" using Cons.prems(2) r by auto
  moreover have "CR \<notin> set (LF # l)" using Cons.prems(1) by simp
  ultimately show ?case
    using Cons.IH Cons.prems find_sub_skip[of CR "LF # l" "LF # p" ?rest] by simp
qed

lemma prefix_before_CR: "CR \<notin> set p \<Longrightarrow> prefix p (l @ CR # rest) \<longleftrightarrow> prefix p l"
proof (induction p arbitrary: l)
  case (Cons c p)
  then show ?case by (cases l) auto
qed simp

section \<open>Character classes\<close>

definition isspace :: "char \<Rightarrow> bool" where
  "isspace c \<longleftrightarrow> c = SP \<or> c = HT \<or> c = LF \<or> c = VT \<or> c = FF \<or> c = CR"

definition isdigit :: "char \<Rightarrow> bool" where
  "isdigit c \<longleftrightarrow> 48 \<le> byte c \<and> byte c \<le> 57"

definition tolower :: "char \<Rightarrow> char" where
  "tolower c = (if 65 \<le> byte c \<and> byte c \<le> 90 then chr (byte c + 32) else c)"

definition digit_val :: "char \<Rightarrow> nat" where
  "digit_val c = byte c - 48"

definition digit_char :: "nat \<Rightarrow> char" where
  "digit_char d = chr (48 + d)"

lemma digit_char_props [simp]:
  "d < 10 \<Longrightarrow> isdigit (digit_char d)" "d < 10 \<Longrightarrow> digit_val (digit_char d) = d"
  by (auto simp: isdigit_def digit_char_def digit_val_def)

lemma isdigit_not_space: "isdigit c \<Longrightarrow> \<not> isspace c"
  by (auto simp: isspace_def isdigit_def)

lemma isdigit_not_sign: "isdigit c \<Longrightarrow> c \<noteq> CHR ''-'' \<and> c \<noteq> CHR ''+''"
  by (auto simp: isdigit_def)

lemma tolower_idem [simp]: "tolower (tolower c) = tolower c"
  by (auto simp: tolower_def)

section \<open>Decimal output\<close>

text \<open>\<open>operator<<\<close> and \<open>std::to_string\<close> on unsigned and signed integers.\<close>

fun show_nat :: "nat \<Rightarrow> string" where
  "show_nat n = (if n < 10 then [digit_char n] else show_nat (n div 10) @ [digit_char (n mod 10)])"

declare show_nat.simps [simp del]

definition show_int :: "int \<Rightarrow> string" where
  "show_int i = (if i < 0 then CHR ''-'' # show_nat (nat (- i)) else show_nat (nat i))"

definition digits_val :: "string \<Rightarrow> nat" where
  "digits_val s = foldl (\<lambda>a c. 10 * a + digit_val c) 0 s"

lemma show_nat_digits: "\<forall>c \<in> set (show_nat n). isdigit c"
  by (induction n rule: show_nat.induct) (subst show_nat.simps, auto)

lemma show_nat_nonempty [simp]: "show_nat n \<noteq> []"
  by (subst show_nat.simps) simp

lemma show_int_hd: "\<exists>c cs. show_int i = c # cs \<and> (c = CHR ''-'' \<or> isdigit c)"
proof -
  obtain c cs where "show_nat (nat i) = c # cs" by (cases "show_nat (nat i)") auto
  then show ?thesis using show_nat_digits[of "nat i"] by (simp add: show_int_def)
qed

lemma digits_val_snoc: "digits_val (s @ [c]) = 10 * digits_val s + digit_val c"
  by (simp add: digits_val_def)

lemma digits_val_show_nat [simp]: "digits_val (show_nat n) = n"
proof (induction n rule: show_nat.induct)
  case (1 n)
  show ?case
  proof (cases "n < 10")
    case True
    then show ?thesis by (subst show_nat.simps) (simp add: digits_val_def)
  next
    case False
    with 1 have "digits_val (show_nat (n div 10)) = n div 10" by simp
    with False show ?thesis by (subst show_nat.simps) (simp add: digits_val_snoc)
  qed
qed

section \<open>Numeric conversions\<close>

text \<open>
  \<open>std::stoll\<close> and its kin skip white space, read an optional sign and the longest run of
  decimal digits, ignore what follows, and throw \<open>std::invalid_argument\<close> when there is no
  digit or \<open>std::out_of_range\<close> when the value does not fit.
\<close>

datatype std_exception = Invalid_argument | Out_of_range

definition scan_sign :: "string \<Rightarrow> bool \<times> string" where
  "scan_sign s = (case s of
      [] \<Rightarrow> (False, [])
    | c # t \<Rightarrow> if c = CHR ''-'' then (True, t) else if c = CHR ''+'' then (False, t) else (False, s))"

definition scan_number :: "string \<Rightarrow> (bool \<times> nat) option" where
  "scan_number s =
     (let (neg, t) = scan_sign (dropWhile isspace s); ds = takeWhile isdigit t
      in if ds = [] then None else Some (neg, digits_val ds))"

definition sto_signed :: "int \<Rightarrow> int \<Rightarrow> string \<Rightarrow> std_exception + int" where
  "sto_signed lo hi s = (case scan_number s of
      None \<Rightarrow> Inl Invalid_argument
    | Some (neg, m) \<Rightarrow>
        let v = (if neg then - int m else int m)
        in if lo \<le> v \<and> v \<le> hi then Inr v else Inl Out_of_range)"

definition stoi :: "string \<Rightarrow> std_exception + int" where
  "stoi = sto_signed INT_MIN INT_MAX"

definition stoll :: "string \<Rightarrow> std_exception + int" where
  "stoll = sto_signed LLONG_MIN LLONG_MAX"

text \<open>\<open>strtoull\<close> accepts a minus sign and negates modulo \<open>2 ^ 64\<close>.\<close>

definition stoull :: "string \<Rightarrow> std_exception + nat" where
  "stoull s = (case scan_number s of
      None \<Rightarrow> Inl Invalid_argument
    | Some (neg, m) \<Rightarrow>
        if ULLONG_MOD \<le> m then Inl Out_of_range
        else Inr (if neg then (ULLONG_MOD - m) mod ULLONG_MOD else m))"

lemma scan_number_show_nat:
  assumes "rest = [] \<or> \<not> isdigit (hd rest)"
  shows "scan_number (show_nat n @ rest) = Some (False, n)"
    and "scan_number (CHR ''-'' # show_nat n @ rest) = Some (True, n)"
proof -
  obtain c cs where s: "show_nat n = c # cs" by (cases "show_nat n") auto
  have c: "isdigit c" using show_nat_digits[of n] s by auto
  have tw: "takeWhile isdigit (show_nat n @ rest) = show_nat n"
    using show_nat_digits assms by (rule takeWhile_append_stop(1))
  have "\<not> isspace c" "c \<noteq> CHR ''-''" "c \<noteq> CHR ''+''"
    using c isdigit_not_space isdigit_not_sign by auto
  then show "scan_number (show_nat n @ rest) = Some (False, n)"
    using tw s digits_val_show_nat[of n] by (simp add: scan_number_def scan_sign_def)
  show "scan_number (CHR ''-'' # show_nat n @ rest) = Some (True, n)"
    using tw by (simp add: scan_number_def scan_sign_def isspace_def)
qed

lemma stoll_show_int:
  assumes "int64_range i" and "rest = [] \<or> \<not> isdigit (hd rest)"
  shows "stoll (show_int i @ rest) = Inr i"
  using assms by (auto simp: stoll_def sto_signed_def show_int_def scan_number_show_nat int64_range_def)

lemma stoull_show_nat:
  assumes "n < ULLONG_MOD" and "rest = [] \<or> \<not> isdigit (hd rest)"
  shows "stoull (show_nat n @ rest) = Inr n"
  using assms by (simp add: stoull_def scan_number_show_nat)

lemma stoi_show_int:
  assumes "INT_MIN \<le> i" "i \<le> INT_MAX" and "rest = [] \<or> \<not> isdigit (hd rest)"
  shows "stoi (show_int i @ rest) = Inr i"
  using assms by (auto simp: stoi_def sto_signed_def show_int_def scan_number_show_nat)

lemma stoll_range: "stoll s = Inr v \<Longrightarrow> int64_range v"
  by (auto simp: stoll_def sto_signed_def int64_range_def Let_def split: option.splits if_splits)

lemma stoi_range: "stoi s = Inr v \<Longrightarrow> INT_MIN \<le> v \<and> v \<le> INT_MAX"
  by (auto simp: stoi_def sto_signed_def Let_def split: option.splits if_splits)

lemma stoull_range: "stoull s = Inr v \<Longrightarrow> v < ULLONG_MOD"
  by (auto simp: stoull_def ULLONG_MOD_def Let_def split: option.splits if_splits)

lemma skip_space:
  "isspace c \<Longrightarrow> stoll (c # s) = stoll s" "isspace c \<Longrightarrow> stoi (c # s) = stoi s"
  "isspace c \<Longrightarrow> stoull (c # s) = stoull s"
  by (simp_all add: stoll_def stoi_def sto_signed_def stoull_def scan_number_def)

end
