(* ===== verification/Base64.thy ===== *)
theory Base64
  imports Cxx_Std
begin

text \<open>
  \<open>base64_encode\<close> and \<open>base64_decode\<close> of \<open>backend/src/utils.hpp\<close>, on machine words
  as the code has them: the encoder packs three bytes into an \<open>unsigned int\<close>, the decoder keeps
  an \<open>int\<close> accumulator that it never masks.  The \<open>int\<close> arithmetic of the decoder wraps
  at 32 bits here, which is what the compiled code does; by the language rules the overflow is
  undefined, and \<open>b64_acc\<close> below, the accumulator on unbounded integers, shows that it happens.
  The round trip rests on one lemma per character position of a group of four.
\<close>

unbundle bit_operations_syntax

section \<open>Definitions\<close>

definition B64_CHARS :: string where
  "B64_CHARS = ''ABCDEFGHIJKLMNOPQRSTUVWXYZabcdefghijklmnopqrstuvwxyz0123456789+/''"

definition b64_char :: "32 word \<Rightarrow> char" where
  "b64_char w = B64_CHARS ! unat (w AND 0x3F)"

definition u32 :: "char \<Rightarrow> 32 word" where
  "u32 c = word_of_nat (byte c)"

text \<open>One step of the loop encodes the next three bytes, or the last one or two with padding.\<close>

fun base64_encode :: "string \<Rightarrow> string" where
  "base64_encode [] = []"
| "base64_encode [x] =
     (let b = push_bit 16 (u32 x)
      in [b64_char (drop_bit 18 b), b64_char (drop_bit 12 b), CHR ''='', CHR ''=''])"
| "base64_encode [x, y] =
     (let b = push_bit 16 (u32 x) OR push_bit 8 (u32 y)
      in [b64_char (drop_bit 18 b), b64_char (drop_bit 12 b), b64_char (drop_bit 6 b), CHR ''=''])"
| "base64_encode (x # y # z # rest) =
     (let b = push_bit 16 (u32 x) OR push_bit 8 (u32 y) OR u32 z
      in b64_char (drop_bit 18 b) # b64_char (drop_bit 12 b) # b64_char (drop_bit 6 b)
         # b64_char b # base64_encode rest)"

definition b64_table :: "int list" where
  "b64_table =
     replicate 43 (-1) @ [62, -1, -1, -1, 63, 52, 53, 54, 55, 56, 57, 58, 59, 60, 61]
     @ replicate 7 (-1)
     @ [0, 1, 2, 3, 4, 5, 6, 7, 8, 9, 10, 11, 12, 13, 14, 15, 16, 17, 18, 19, 20, 21, 22, 23, 24, 25]
     @ replicate 6 (-1)
     @ [26, 27, 28, 29, 30, 31, 32, 33, 34, 35, 36, 37, 38, 39, 40, 41, 42, 43, 44, 45, 46, 47, 48,
        49, 50, 51]
     @ replicate 133 (-1)"

definition b64_lookup :: "char \<Rightarrow> int" where
  "b64_lookup c = b64_table ! byte c"

text \<open>The decoding loop with its two variables \<open>val\<close> and \<open>bits\<close>.\<close>

fun b64_loop :: "32 word \<Rightarrow> int \<Rightarrow> string \<Rightarrow> string" where
  "b64_loop val bits [] = []"
| "b64_loop val bits (c # s) =
     (if b64_lookup c = -1 then []
      else
        let val' = push_bit 6 val + word_of_int (b64_lookup c); bits' = bits + 6
        in if 0 \<le> bits'
           then chr (unat (signed_drop_bit (nat bits') val' AND 0xFF)) # b64_loop val' (bits' - 8) s
           else b64_loop val' bits' s)"

declare b64_loop.simps(2) [simp del]

definition base64_decode :: "string \<Rightarrow> string" where
  "base64_decode s = b64_loop 0 (-8) s"

section \<open>Words\<close>

lemma b64_table_chars: "k < 64 \<Longrightarrow> b64_table ! byte (B64_CHARS ! k) = int k"
proof -
  have "\<forall>k \<in> set [0..<64]. b64_table ! byte (B64_CHARS ! k) = int k"
    by (simp add: b64_table_def B64_CHARS_def upt_rec nth_append)
  then show "k < 64 \<Longrightarrow> b64_table ! byte (B64_CHARS ! k) = int k" by simp
qed

lemma unat_and_0xFF: "unat ((w :: 32 word) AND 0xFF) = unat w mod 256"
proof -
  have "(0xFF :: 32 word) = mask 8" by (simp add: mask_eq_exp_minus_1)
  then have "w AND 0xFF = take_bit 8 w" by (simp add: take_bit_eq_mask)
  then show ?thesis by (simp add: unat_mod take_bit_eq_mod)
qed

lemma unat_and_0x3F: "unat ((w :: 32 word) AND 0x3F) = unat w mod 64"
proof -
  have "(0x3F :: 32 word) = mask 6" by (simp add: mask_eq_exp_minus_1)
  then have "w AND 0x3F = take_bit 6 w" by (simp add: take_bit_eq_mask)
  then show ?thesis by (simp add: unat_mod take_bit_eq_mod)
qed

lemma unat_numeral_256: "unat (256 :: 32 word) = 256"
  by simp

lemma b64_out_byte:
  fixes w :: "32 word"
  assumes "n \<le> 23"
  shows "unat (signed_drop_bit n w AND 0xFF) = (unat w div 2 ^ n) mod 256"
proof -
  have "take_bit 8 (signed_drop_bit n w) = take_bit 8 (drop_bit n w)"
    using assms by (auto simp: bit_eq_iff bit_simps)
  then have "signed_drop_bit n w mod 256 = drop_bit n w mod 256"
    by (simp add: take_bit_eq_mod)
  then have "unat (signed_drop_bit n w) mod 256 = unat (drop_bit n w) mod 256"
    by (metis unat_mod unat_numeral_256)
  then show ?thesis by (simp only: unat_and_0xFF unat_drop_bit_eq drop_bit_eq_div [where 'a = nat])
qed

definition b64_step :: "32 word \<Rightarrow> nat \<Rightarrow> 32 word" where
  "b64_step v k = push_bit 6 v + word_of_nat k"

lemma unat_b64_step: "unat (b64_step v k) mod 4096 = (64 * unat v + k) mod 4096"
proof -
  have "unat (b64_step v k) = (64 * unat v + k) mod 2 ^ 32"
    by (simp add: b64_step_def push_bit_eq_mult unat_word_ariths unat_of_nat mod_simps mult.commute)
  then show ?thesis by (simp add: mod_mod_cancel)
qed

lemma unat_b64_step2:
  assumes "a < 64" "b < 64"
  shows "unat (b64_step (b64_step v a) b) mod 4096 = 64 * a + b"
proof -
  define w where "w = b64_step v a"
  have "unat w mod 4096 = (64 * unat v + a) mod 4096"
    by (simp add: w_def unat_b64_step)
  then have "unat w mod 4096 mod 64 = (64 * unat v + a) mod 4096 mod 64"
    by simp
  then have "unat w mod 64 = a"
    using assms(1) by (simp add: mod_mod_cancel)
  then obtain q where "unat w = 64 * q + a"
    by (metis div_mult_mod_eq mult.commute)
  then have "64 * unat w + b = (64 * a + b) + 4096 * q" by simp
  then have "unat (b64_step w b) mod 4096 = (64 * a + b) mod 4096"
    unfolding unat_b64_step by (simp only: mod_mult_self2)
  then show ?thesis using assms by (simp add: w_def)
qed

lemma unat_u32: "unat (u32 c) = byte c"
  by (simp add: u32_def unat_of_nat less_trans[OF byte_less])



lemma unat_small_bits:
  fixes y :: "32 word"
  assumes "unat y < 2 ^ n" "n \<le> k"
  shows "\<not> bit y k"
proof -
  have "unat y < 2 ^ k"
    using assms by (meson order_less_le_trans one_le_numeral power_increasing)
  then have "\<not> bit (unat y) k" by (simp add: bit_iff_odd)
  then show ?thesis by (auto simp: bit_unsigned_iff bit_imp_le_length dest: bit_imp_le_length)
qed

lemma push_or_unat:
  fixes x y :: "32 word"
  assumes "unat y < 2 ^ n" "unat x * 2 ^ n + unat y < 2 ^ 32" "n < 32"
  shows "unat (push_bit n x OR y) = unat x * 2 ^ n + unat y"
proof -
  have "push_bit n x OR y = push_bit n x + y"
    by (rule disjunctive_add_eq_or [symmetric]) (auto simp: bit_simps bit_eq_iff dest: unat_small_bits [OF assms(1)])
  moreover have "unat (push_bit n x) = unat x * 2 ^ n"
    using assms(2) by (simp add: unsigned_push_bit_eq push_bit_eq_mult [where 'a = nat] take_bit_eq_mod)
  ultimately show ?thesis
    using assms(2) by (simp add: unat_word_ariths)
qed

lemma b64_groups:
  assumes "x < 256" "y < 256" "z < (256::nat)"
  defines "b \<equiv> x * 65536 + (y * 256 + z)"
  shows "b div 262144 mod 64 = x div 4"
    "b div 4096 mod 64 = x mod 4 * 16 + y div 16"
    "b div 64 mod 64 = y mod 16 * 4 + z div 64"
    "b mod 64 = z mod 64"
proof -
  have 1: "b div 65536 = x" using assms by simp
  have 2: "b div 256 = 256 * x + y" using assms by simp
  have 3: "b div 64 = 1024 * x + 4 * y + z div 64" using assms by simp
  have "b div 262144 = x div 4" using 1 div_mult2_eq[of b 65536 4] by simp
  then show "b div 262144 mod 64 = x div 4" using assms(1) by simp
  have "b div 4096 = (256 * x + y) div 16" using 2 div_mult2_eq[of b 256 16] by simp
  then have "b div 4096 = 16 * x + y div 16" by simp
  moreover have "y div 16 < 16" using assms(2) by simp
  moreover have "16 * x = 64 * (x div 4) + x mod 4 * 16" using div_mult_mod_eq[of x 4] by linarith
  ultimately have "b div 4096 = 64 * (x div 4) + (x mod 4 * 16 + y div 16)" by simp
  moreover have "x mod 4 * 16 + y div 16 < 64"
    using \<open>y div 16 < 16\<close> mod_less_divisor[of 4 x] by linarith
  ultimately show "b div 4096 mod 64 = x mod 4 * 16 + y div 16" by simp
  have "4 * y = 64 * (y div 16) + y mod 16 * 4" using div_mult_mod_eq[of y 16] by linarith
  then have "b div 64 = 64 * (16 * x + y div 16) + (y mod 16 * 4 + z div 64)" using 3 by simp
  moreover have "z div 64 < 4" using assms(3) by simp
  then have "y mod 16 * 4 + z div 64 < 64" using mod_less_divisor[of 16 y] by linarith
  ultimately show "b div 64 mod 64 = y mod 16 * 4 + z div 64"
    by (simp only: mod_mult_self4 mod_less)
  have "b = 64 * (1024 * x + 4 * y) + z" by (simp add: b_def)
  then show "b mod 64 = z mod 64" by (simp only: mod_mult_self4)
qed


section \<open>One group of four characters\<close>

lemma b64_lookup_char: "k < 64 \<Longrightarrow> b64_lookup (B64_CHARS ! k) = int k"
  by (simp add: b64_lookup_def b64_table_chars)

lemma b64_lookup_pad: "b64_lookup (CHR ''='') = -1"
  by (simp add: b64_lookup_def b64_table_def nth_append)

lemma b64_loop_char:
  assumes "k < 64" "bits \<le> 17"
  shows "b64_loop v bits (B64_CHARS ! k # s) =
    (if -6 \<le> bits
     then chr (unat (b64_step v k) div 2 ^ nat (bits + 6) mod 256) # b64_loop (b64_step v k) (bits - 2) s
     else b64_loop (b64_step v k) (bits + 6) s)"
proof -
  have "int k \<noteq> - 1" by simp
  moreover have "nat (bits + 6) \<le> 23" using assms(2) by simp
  ultimately show ?thesis
    using assms(1) by (simp add: b64_loop.simps(2) b64_lookup_char b64_out_byte Let_def flip: b64_step_def)
qed

lemma b64_out:
  assumes "a < 64" "b < 64" "n \<le> 4"
  shows "unat (b64_step (b64_step v a) b) div 2 ^ n mod 256 = (64 * a + b) div 2 ^ n mod 256"
proof -
  let ?w = "unat (b64_step (b64_step v a) b)"
  have p: "2 ^ 12 = 2 ^ n * (2 ^ (12 - n) :: nat)" and d: "256 dvd (2 ^ (12 - n) :: nat)"
    using assms(3) le_imp_power_dvd[of 8 "12 - n" "2 :: nat"] by (simp_all flip: power_add)
  have "?w mod 2 ^ 12 div 2 ^ n = ?w div 2 ^ n mod 2 ^ (12 - n)"
    unfolding p mod_mult2_eq by simp
  then have "?w mod 2 ^ 12 div 2 ^ n mod 256 = ?w div 2 ^ n mod 256"
    using d by (simp add: mod_mod_cancel)
  then show ?thesis using assms by (simp add: unat_b64_step2)
qed

lemma mod_mult_add: "b < n \<Longrightarrow> (n * a + b) mod (n * m) = n * (a mod m) + (b :: nat)"
  by (simp add: mod_mult2_eq)

lemma b64_loop_2:
  assumes "k1 < 64" "k2 < 64"
  shows "b64_loop v (-8) (B64_CHARS ! k1 # B64_CHARS ! k2 # s) =
    chr (k1 * 4 + k2 div 16) # b64_loop (b64_step (b64_step v k1) k2) (-4) s"
proof -
  have "(64 * k1 + k2) div 16 mod 256 = k1 * 4 + k2 div 16"
    using assms by simp
  then show ?thesis using assms b64_out[of k1 k2 4 v] by (simp add: b64_loop_char)
qed

lemma b64_loop_3:
  assumes "k2 < 64" "k3 < 64"
  shows "b64_loop (b64_step v k2) (-4) (B64_CHARS ! k3 # s) =
    chr (k2 mod 16 * 16 + k3 div 4) # b64_loop (b64_step (b64_step v k2) k3) (-6) s"
proof -
  have "(64 * k2 + k3) div 4 = 16 * k2 + k3 div 4" by simp
  then have "(64 * k2 + k3) div 4 mod 256 = k2 mod 16 * 16 + k3 div 4"
    using assms mod_mult_add[of "k3 div 4" 16 k2 16] by simp
  then show ?thesis using assms b64_out[of k2 k3 2 v] by (simp add: b64_loop_char)
qed

lemma b64_loop_4:
  assumes "k3 < 64" "k4 < 64"
  shows "b64_loop (b64_step v k3) (-6) (B64_CHARS ! k4 # s) =
    chr (k3 mod 4 * 64 + k4) # b64_loop (b64_step (b64_step v k3) k4) (-8) s"
proof -
  have "(64 * k3 + k4) mod 256 = k3 mod 4 * 64 + k4"
    using assms mod_mult_add[of k4 64 k3 4] by simp
  then show ?thesis using assms b64_out[of k3 k4 0 v] by (simp add: b64_loop_char)
qed

lemma b64_loop_pad: "b64_loop v bits (CHR ''='' # s) = []"
  by (simp add: b64_loop.simps(2) b64_lookup_pad)

lemma unat_b64_1: "unat (push_bit 16 (u32 x)) = byte x * 65536"
  using push_or_unat[of 0 16 "u32 x"] byte_less[of x] by (simp add: unat_u32)

lemma unat_b64_2: "unat (push_bit 16 (u32 x) OR push_bit 8 (u32 y)) = byte x * 65536 + byte y * 256"
proof -
  have "unat (push_bit 8 (u32 y)) = byte y * 256"
    using push_or_unat[of 0 8 "u32 y"] byte_less[of y] by (simp add: unat_u32)
  then show ?thesis
    using push_or_unat[of "push_bit 8 (u32 y)" 16 "u32 x"] byte_less[of x] byte_less[of y]
    by (simp add: unat_u32)
qed

lemma unat_b64_3:
  "unat (push_bit 16 (u32 x) OR push_bit 8 (u32 y) OR u32 z) = byte x * 65536 + (byte y * 256 + byte z)"
proof -
  have "unat (push_bit 8 (u32 y) OR u32 z) = byte y * 256 + byte z"
    using push_or_unat[of "u32 z" 8 "u32 y"] byte_less[of y] byte_less[of z] by (simp add: unat_u32)
  then show ?thesis
    using push_or_unat[of "push_bit 8 (u32 y) OR u32 z" 16 "u32 x"] byte_less[of x] byte_less[of y] byte_less[of z]
    by (simp add: unat_u32 or.assoc)
qed

lemma b64_char_nth: "b64_char w = B64_CHARS ! (unat w mod 64)"
  by (simp add: b64_char_def unat_and_0x3F)

lemma unat_drop32: "unat (drop_bit n (w :: 32 word)) = unat w div 2 ^ n"
  by (simp only: unat_drop_bit_eq drop_bit_eq_div [where 'a = nat])

text \<open>The encoded characters in terms of the values of the bytes.\<close>

lemma encode_1:
  "base64_encode [x] =
    [B64_CHARS ! (byte x div 4), B64_CHARS ! (byte x mod 4 * 16), CHR ''='', CHR ''='']"
  using b64_groups[of "byte x" 0 0]
  by (simp add: Let_def b64_char_nth unat_drop32 unat_b64_1)

lemma encode_2:
  "base64_encode [x, y] =
    [B64_CHARS ! (byte x div 4), B64_CHARS ! (byte x mod 4 * 16 + byte y div 16),
     B64_CHARS ! (byte y mod 16 * 4), CHR ''='']"
  using b64_groups[of "byte x" "byte y" 0]
  by (simp add: Let_def b64_char_nth unat_drop32 unat_b64_2)

lemma encode_3:
  "base64_encode (x # y # z # s) =
    B64_CHARS ! (byte x div 4) # B64_CHARS ! (byte x mod 4 * 16 + byte y div 16)
     # B64_CHARS ! (byte y mod 16 * 4 + byte z div 64) # B64_CHARS ! (byte z mod 64) # base64_encode s"
  using b64_groups[of "byte x" "byte y" "byte z"]
  by (simp add: Let_def b64_char_nth unat_drop32 unat_b64_3 del: drop_bit_or)

lemma b64_bounds:
  shows "x < 256 \<Longrightarrow> x div 4 < (64 :: nat)"
    and "y < 256 \<Longrightarrow> x mod 4 * 16 + y div 16 < (64 :: nat)"
    and "y < 256 \<Longrightarrow> x mod 16 * 4 + y div 64 < (64 :: nat)"
    and "x mod 4 * 16 < (64 :: nat)" and "x mod 16 * 4 < (64 :: nat)"
proof -
  have "x mod 4 < 4" "x mod 16 < 16" by auto
  then show "x mod 4 * 16 < 64" "x mod 16 * 4 < 64"
    "y < 256 \<Longrightarrow> x mod 4 * 16 + y div 16 < (64 :: nat)"
    "y < 256 \<Longrightarrow> x mod 16 * 4 + y div 64 < (64 :: nat)"
    by linarith+
qed simp

declare base64_encode.simps(2-4) [simp del]

lemma decode_encode_loop: "b64_loop v (-8) (base64_encode s) = s"
proof (induction s arbitrary: v rule: base64_encode.induct)
  case (2 x)
  show ?case by (simp add: encode_1 b64_loop_2 b64_loop_pad b64_bounds)
next
  case (3 x y)
  have "byte y div 16 < 16" using byte_less[of y] by linarith
  then have "(byte x mod 4 * 16 + byte y div 16) mod 16 = byte y div 16" by simp
  then show ?case by (simp add: encode_2 b64_loop_2 b64_loop_3 b64_loop_pad b64_bounds)
next
  case (4 x y z s)
  have "byte y div 16 < 16" "byte z div 64 < 4"
    using byte_less[of y] byte_less[of z] by linarith+
  then show ?case by (simp add: encode_3 b64_loop_2 b64_loop_3 b64_loop_4 b64_bounds "4.IH")
qed simp

section \<open>Properties\<close>

text \<open>
  C31. Decoding what \<open>base64_encode\<close> produced gives back the bytes, for byte strings of any
  length and content, although the accumulator of the decoder overflows on the way.
\<close>

theorem base64_roundtrip: "base64_decode (base64_encode s) = s"
  by (simp add: base64_decode_def decode_encode_loop)

interpretation b64: codec "\<lambda>_. True" base64_encode base64_decode
  by unfold_locales (simp add: base64_decode_def decode_encode_loop)

lemma b64_nth_set: "k < 64 \<Longrightarrow> B64_CHARS ! k \<in> set B64_CHARS"
  by (rule nth_mem) (simp add: B64_CHARS_def)

text \<open>
  The encoder emits four characters for every three bytes started, drawn from the alphabet and
  the padding character.
\<close>

theorem base64_encode_shape:
  "length (base64_encode s) = 4 * ((length s + 2) div 3)
   \<and> set (base64_encode s) \<subseteq> insert (CHR ''='') (set B64_CHARS)"
proof (induction s rule: base64_encode.induct)
  case (4 x y z s)
  have "(5 + length s) div 3 = Suc ((length s + 2) div 3)" by linarith
  with 4 show ?case by (simp add: encode_3 b64_nth_set b64_bounds)
qed (simp_all add: encode_1 encode_2 b64_nth_set b64_bounds)

lemma b64_loop_stop: "b64_lookup c = -1 \<Longrightarrow> b64_loop v bits (s @ c # t) = b64_loop v bits s"
  by (induction s arbitrary: v bits) (simp_all add: b64_loop.simps(2) Let_def)

lemma length_b64_loop:
  "-8 \<le> bits \<Longrightarrow> 8 * int (length (b64_loop v bits s)) \<le> 6 * int (length s) + bits + 8"
proof (induction s arbitrary: v bits)
  case (Cons c s)
  show ?case
    using Cons.prems Cons.IH[of "bits - 2" "push_bit 6 v + word_of_int (b64_lookup c)"]
      Cons.IH[of "bits + 6" "push_bit 6 v + word_of_int (b64_lookup c)"]
    by (simp add: b64_loop.simps(2) Let_def)
qed simp

text \<open>
  Decoding stops at the first character outside the alphabet (the padding character is one),
  whatever follows it, and never yields more than three bytes for four characters: the space that
  the code reserves suffices for complete groups.
\<close>

theorem base64_decode_stops:
  assumes "b64_lookup c = -1"
  shows "base64_decode (s @ c # t) = base64_decode s
    \<and> length (base64_decode (s @ c # t)) \<le> 3 * length s div 4"
proof -
  have 1: "base64_decode (s @ c # t) = base64_decode s"
    using assms by (simp add: base64_decode_def b64_loop_stop)
  have "8 * int (length (base64_decode s)) \<le> 6 * int (length s)"
    using length_b64_loop[of "-8" 0 s] by (simp add: base64_decode_def)
  then show ?thesis
    unfolding 1 by (intro conjI refl) linarith
qed

theorem base64_decode_stops_witness:
  "base64_decode (''TWFu'' @ CHR ''='' # ''zzzz'') = base64_decode ''TWFu''
   \<and> length (base64_decode (''TWFu'' @ CHR ''='' # ''zzzz'')) \<le> 3 * length ''TWFu'' div 4"
  using base64_decode_stops[OF b64_lookup_pad, of "''TWFu''" "''zzzz''"] by blast

text \<open>The accumulator \<open>val\<close> as the unbounded integer that the source text denotes.\<close>

definition b64_acc :: "string \<Rightarrow> int" where
  "b64_acc s = foldl (\<lambda>v c. 64 * v + b64_lookup c) 0 s"

lemma b64_acc_mono:
  "\<forall>c \<in> set s. 0 \<le> b64_lookup c \<Longrightarrow> 0 \<le> v \<Longrightarrow>
    64 ^ length s * v \<le> foldl (\<lambda>v c. 64 * v + b64_lookup c) v s"
proof (induction s arbitrary: v)
  case (Cons c s)
  have "64 ^ length s * (64 * v) \<le> 64 ^ length s * (64 * v + b64_lookup c)"
    using Cons.prems by (intro mult_left_mono) auto
  also have "\<dots> \<le> foldl (\<lambda>v c. 64 * v + b64_lookup c) (64 * v + b64_lookup c) s"
    using Cons.prems by (intro Cons.IH) auto
  finally show ?case by (simp add: algebra_simps)
qed simp

lemma b64_lookup_range: "- 1 \<le> b64_lookup c \<and> b64_lookup c < 64"
proof -
  have "\<forall>v \<in> set b64_table. - 1 \<le> v \<and> v < 64" by (simp add: b64_table_def)
  moreover have "length b64_table = 256" by (simp add: b64_table_def)
  ultimately show ?thesis unfolding b64_lookup_def by (metis nth_mem byte_less)
qed

text \<open>
  Signed overflow is reached: on every text of at least seven alphabet characters that does not
  start with the character of value 0, the value that the decoder assigns to its \<open>int\<close>
  accumulator exceeds \<open>INT_MAX\<close>, which C++17 leaves undefined.
\<close>

theorem base64_decode_int_overflow:
  assumes "\<forall>d \<in> set s. b64_lookup d \<noteq> -1" and "7 \<le> length s" and "0 < b64_lookup (hd s)"
  shows "INT_MAX < b64_acc s"
proof -
  obtain c t where s: "s = c # t" using assms(2) by (cases s) auto
  have pos: "\<forall>d \<in> set t. 0 \<le> b64_lookup d"
  proof
    fix d assume "d \<in> set t"
    with assms(1) s have "b64_lookup d \<noteq> -1" by simp
    with b64_lookup_range[of d] show "0 \<le> b64_lookup d" by linarith
  qed
  have "(64 :: int) ^ 6 \<le> 64 ^ length t"
    using assms(2) s by (intro power_increasing) auto
  also have "\<dots> \<le> 64 ^ length t * b64_lookup c" using assms(3) s by simp
  also have "\<dots> \<le> b64_acc s"
    using b64_acc_mono[OF pos, of "b64_lookup c"] assms(3) s by (simp add: b64_acc_def)
  finally show ?thesis by (simp add: INT_MAX_def)
qed

theorem base64_decode_int_overflow_witness: "INT_MAX < b64_acc ''TWFueSBo''"
  by (rule base64_decode_int_overflow) (simp_all add: b64_lookup_def b64_table_def nth_append)

end
