(* ===== verification/Utils.thy ===== *)
theory Utils
  imports Cxx_Std
begin

text \<open>
  \<open>backend/src/utils.hpp\<close> but for its Base64 functions (theory \<open>Base64\<close>): URL decoding,
  string helpers, UUIDs and JSON escaping.  \<open>now_seconds\<close> reads the clock: wherever the
  program calls it the model has an argument.  The random words of \<open>uuid4\<close> are arguments
  as well.
\<close>

unbundle bit_operations_syntax

section \<open>URL decoding\<close>

definition hex_val :: "char \<Rightarrow> nat option" where
  "hex_val c =
     (let n = byte c
      in if 48 \<le> n \<and> n \<le> 57 then Some (n - 48)
         else if 97 \<le> n \<and> n \<le> 102 then Some (n - 87)
         else if 65 \<le> n \<and> n \<le> 70 then Some (n - 55)
         else None)"

definition is_hex :: "char \<Rightarrow> bool" where
  "is_hex c \<longleftrightarrow> hex_val c \<noteq> None"

text \<open>
  \<open>strtol(hex, &end, 16)\<close>: white space, a sign and the prefix \<open>0x\<close> (before a hexadecimal
  digit) are accepted, and no digit at all gives 0.
\<close>

definition strip_0x :: "string \<Rightarrow> string" where
  "strip_0x s = (case s of
      z # x # d # r \<Rightarrow>
        if z = CHR ''0'' \<and> (x = CHR ''x'' \<or> x = CHR ''X'') \<and> is_hex d then d # r else s
    | _ \<Rightarrow> s)"

definition strtol16 :: "string \<Rightarrow> int" where
  "strtol16 s =
     (let (neg, t) = scan_sign (dropWhile isspace (c_str s));
          v = foldl (\<lambda>a c. 16 * a + the (hex_val c)) 0 (takeWhile is_hex (strip_0x t))
      in if neg then - int v else int v)"

fun url_decode :: "string \<Rightarrow> string" where
  "url_decode [] = []"
| "url_decode (c # s) =
     (if c = CHR ''%'' \<and> 2 \<le> length s
      then chr (nat (strtol16 (take 2 s) mod 256)) # url_decode (drop 2 s)
      else if c = CHR ''+'' then SP # url_decode s
      else c # url_decode s)"

section \<open>String helpers\<close>

text \<open>
  \<open>std::getline\<close> up to a delimiter until the stream is at its end: a delimiter at the end of
  the text does not start another item.
\<close>

function split :: "string \<Rightarrow> char \<Rightarrow> string list" where
  "split s d =
     (if s = [] then []
      else takeWhile (\<lambda>c. c \<noteq> d) s
           # (case dropWhile (\<lambda>c. c \<noteq> d) s of [] \<Rightarrow> [] | _ # rest \<Rightarrow> split rest d))"
  by pat_completeness auto
termination
proof (relation "measure (\<lambda>(s, d). length s)", goal_cases)
  case (2 s d c rest)
  then have "length (c # rest) \<le> length s"
    by (metis length_dropWhile_le)
  then show ?case by simp
qed simp

declare split.simps [simp del]

definition is_ws :: "char \<Rightarrow> bool" where
  "is_ws c \<longleftrightarrow> c = SP \<or> c = HT \<or> c = CR \<or> c = LF"

definition find_first_not_ws :: "string \<Rightarrow> nat option" where
  "find_first_not_ws s =
     (if \<forall>c \<in> set s. is_ws c then None else Some (length (takeWhile is_ws s)))"

definition find_last_not_ws :: "string \<Rightarrow> nat option" where
  "find_last_not_ws s =
     (if \<forall>c \<in> set s. is_ws c then None else Some (length s - 1 - length (takeWhile is_ws (rev s))))"

definition trim :: "string \<Rightarrow> string" where
  "trim s = (case (find_first_not_ws s, find_last_not_ws s) of
      (Some st, Some en) \<Rightarrow> substr s st (en - st + 1)
    | _ \<Rightarrow> [])"

definition to_lower :: "string \<Rightarrow> string" where
  "to_lower s = map tolower s"

section \<open>UUIDs\<close>

definition hex_char :: "nat \<Rightarrow> char" where
  "hex_char d = (if d < 10 then chr (48 + d) else chr (87 + d))"

fun show_hex :: "nat \<Rightarrow> string" where
  "show_hex n = (if n < 16 then [hex_char n] else show_hex (n div 16) @ [hex_char (n mod 16)])"

declare show_hex.simps [simp del]

text \<open>The \<open>printf\<close> conversion \<open>%0wx\<close>.\<close>

definition pad_hex :: "nat \<Rightarrow> nat \<Rightarrow> string" where
  "pad_hex w n = replicate (w - length (show_hex n)) (CHR ''0'') @ show_hex n"

definition uuid4 :: "64 word \<Rightarrow> 64 word \<Rightarrow> string" where
  "uuid4 rnd1 rnd2 =
     (let hi = (rnd1 AND 0xFFFFFFFFFFFF0FFF) OR 0x0000000000004000;
          lo = (rnd2 AND 0x3FFFFFFFFFFFFFFF) OR 0x8000000000000000
      in pad_hex 8 (unat (ucast (drop_bit 32 hi) :: 32 word)) @ ''-''
         @ pad_hex 4 (unat (ucast (drop_bit 16 hi) :: 16 word)) @ ''-''
         @ pad_hex 4 (unat (ucast hi :: 16 word)) @ ''-''
         @ pad_hex 4 (unat (ucast (drop_bit 48 lo) :: 16 word)) @ ''-''
         @ pad_hex 12 (unat (lo AND 0x0000FFFFFFFFFFFF)))"

section \<open>JSON escaping\<close>

definition json_escape_char :: "char \<Rightarrow> string" where
  "json_escape_char c =
     (if c = DQ then [BS, DQ]
      else if c = BS then [BS, BS]
      else if c = LF then [BS, CHR ''n'']
      else if c = CR then [BS, CHR ''r'']
      else if c = HT then [BS, CHR ''t'']
      else if byte c < 32 then [BS, CHR ''u''] @ pad_hex 4 (byte c)
      else [c])"

fun json_escape :: "string \<Rightarrow> string" where
  "json_escape [] = []"
| "json_escape (c # s) = json_escape_char c @ json_escape s"

section \<open>Hexadecimal output\<close>

lemma show_hex_small [cxx_simps]: "n < 16 \<Longrightarrow> show_hex n = [hex_char n]"
  by (subst show_hex.simps) simp

lemma show_hex_big [cxx_simps]: "16 \<le> n \<Longrightarrow> show_hex n = show_hex (n div 16) @ [hex_char (n mod 16)]"
  by (subst show_hex.simps) simp

lemma hex_char_0: "hex_char 0 = CHR ''0''"
  by (simp add: hex_char_def chr_eq_iff)

lemma pad_hex_1: "n < 16 \<Longrightarrow> pad_hex 1 n = [hex_char n]"
  by (simp add: pad_hex_def show_hex_small)

lemma pad_hex_step:
  assumes "0 < w"
  shows "pad_hex (w + 1) n = pad_hex w (n div 16) @ [hex_char (n mod 16)]"
proof (cases "n < 16")
  case True
  then show ?thesis
    using assms by (cases w) (simp_all add: pad_hex_def show_hex_small hex_char_0 replicate_append_same)
next
  case False
  then show ?thesis by (simp add: pad_hex_def show_hex_big)
qed

lemma pad_hex_4:
  assumes "n < 65536"
  shows "pad_hex 4 n =
    [hex_char (n div 4096), hex_char (n div 256 mod 16), hex_char (n div 16 mod 16), hex_char (n mod 16)]"
proof -
  have "n div 4096 < 16" using assms by linarith
  then have 1: "pad_hex 1 (n div 4096) = [hex_char (n div 4096)]" by (rule pad_hex_1)
  have 2: "pad_hex 2 (n div 256) = pad_hex 1 (n div 4096) @ [hex_char (n div 256 mod 16)]"
    using pad_hex_step[of 1 "n div 256"] by (simp add: numeral_2_eq_2 flip: div_mult2_eq)
  have 3: "pad_hex 3 (n div 16) = pad_hex 2 (n div 256) @ [hex_char (n div 16 mod 16)]"
    using pad_hex_step[of 2 "n div 16"] by (simp flip: div_mult2_eq)
  have "pad_hex 4 n = pad_hex 3 (n div 16) @ [hex_char (n mod 16)]"
    using pad_hex_step[of 3 n] by simp
  then show ?thesis unfolding 3 2 1 by simp
qed

definition is_lower_hex :: "char \<Rightarrow> bool" where
  "is_lower_hex c \<longleftrightarrow> isdigit c \<or> 97 \<le> byte c \<and> byte c \<le> 102"

lemma is_lower_hex_char: "d < 16 \<Longrightarrow> is_lower_hex (hex_char d)"
  by (auto simp: is_lower_hex_def isdigit_def hex_char_def)

lemma show_hex_lower: "\<forall>c \<in> set (show_hex n). is_lower_hex c"
  by (induction n rule: show_hex.induct) (subst show_hex.simps, auto simp: is_lower_hex_char)

lemma pad_hex_lower: "\<forall>c \<in> set (pad_hex w n). is_lower_hex c"
  using show_hex_lower[of n] by (auto simp: pad_hex_def is_lower_hex_def isdigit_def)

lemma length_pad_hex: "n < 16 ^ w \<Longrightarrow> 0 < w \<Longrightarrow> length (pad_hex w n) = w"
proof (induction w arbitrary: n)
  case (Suc w)
  show ?case
  proof (cases "w = 0")
    case True
    with Suc.prems show ?thesis by (simp add: pad_hex_def show_hex_small)
  next
    case False
    have "n div 16 < 16 ^ w" using Suc.prems by (simp add: less_mult_imp_div_less mult.commute)
    with False show ?thesis using pad_hex_step[of w n] Suc.IH[of "n div 16"] by simp
  qed
qed simp

section \<open>UUID\<close>

lemma uuid_version:
  "unat (ucast (((r :: 64 word) AND 0xFFFFFFFFFFFF0FFF) OR 0x4000) :: 16 word) div 4096 = 4"
proof -
  let ?v = "ucast ((r AND 0xFFFFFFFFFFFF0FFF) OR 0x4000) :: 16 word"
  have "drop_bit 12 ?v = 4"
    by (rule bit_word_eqI) (auto simp: bit_simps less_Suc_eq numeral_eq_Suc)
  then have "unat (drop_bit 12 ?v) = 4" by simp
  then show ?thesis by (simp only: unat_drop_bit_eq drop_bit_eq_div [where 'a = nat]) simp
qed


lemma uuid_variant:
  "unat (ucast (drop_bit 48 (((r :: 64 word) AND 0x3FFFFFFFFFFFFFFF) OR 0x8000000000000000)) :: 16 word)
     div 4096 \<in> {8, 9, 10, 11}"
proof -
  let ?v = "ucast (drop_bit 48 ((r AND 0x3FFFFFFFFFFFFFFF) OR 0x8000000000000000)) :: 16 word"
  have "drop_bit 14 ?v = 2"
    by (rule bit_word_eqI) (auto simp: bit_simps less_Suc_eq numeral_eq_Suc)
  then have "unat (drop_bit 14 ?v) = 2" by simp
  then have "unat ?v div 16384 = 2"
    by (simp only: unat_drop_bit_eq drop_bit_eq_div [where 'a = nat]) simp
  then have "unat ?v div 4096 div 4 = 2" by (simp flip: div_mult2_eq)
  then show ?thesis by auto
qed

lemma unat_and_48: "unat ((lo :: 64 word) AND 0x0000FFFFFFFFFFFF) < 16 ^ 12"
proof -
  have "unat (lo AND 0x0000FFFFFFFFFFFF) \<le> unat (0x0000FFFFFFFFFFFF :: 64 word)"
    by (rule word_and_le1 [THEN word_le_nat_alt [THEN iffD1]])
  then show ?thesis by simp
qed

lemma unat16_less: "unat (w :: 16 word) < 65536" and unat32_less: "unat (v :: 32 word) < 4294967296"
  using unsigned_less[of w, where 'a = nat] unsigned_less[of v, where 'a = nat] by simp_all

lemma dashed_nth:
  fixes a b c d e :: string
  assumes "length a = 8" "length b = 4" "length c = 4" "length d = 4" "length e = 12"
  defines "s \<equiv> a @ ''-'' @ b @ ''-'' @ c @ ''-'' @ d @ ''-'' @ e"
  shows "length s = 36" "s ! 8 = CHR ''-''" "s ! 13 = CHR ''-''" "s ! 18 = CHR ''-''"
    "s ! 23 = CHR ''-''" "s ! 14 = c ! 0" "s ! 19 = d ! 0"
    "i < 36 \<Longrightarrow> i \<notin> {8, 13, 18, 23} \<Longrightarrow> s ! i \<in> set a \<union> set b \<union> set c \<union> set d \<union> set e"
proof -
  show "length s = 36" "s ! 8 = CHR ''-''" "s ! 13 = CHR ''-''" "s ! 18 = CHR ''-''"
    "s ! 23 = CHR ''-''" "s ! 14 = c ! 0" "s ! 19 = d ! 0"
    using assms(1-5) by (simp_all add: s_def nth_append)
  assume i: "i < 36" "i \<notin> {8, 13, 18, 23}"
  then consider "i < 8" | "8 < i" "i < 13" | "13 < i" "i < 18" | "18 < i" "i < 23" | "23 < i"
    by fastforce
  then show "s ! i \<in> set a \<union> set b \<union> set c \<union> set d \<union> set e"
    using assms(1-5) i(1) by cases (auto simp: s_def nth_append nth_Cons' )
qed

text \<open>
  Whatever the random words, \<open>uuid4\<close> yields 36 characters, so the buffer of 37 bytes is
  never truncated; the dashes stand at their four places, the version digit is 4, the variant digit
  is 8, 9, a or b, and every other character is a lower-case hexadecimal digit.
\<close>

theorem uuid4_format:
  "length (uuid4 r1 r2) = 36
   \<and> uuid4 r1 r2 ! 8 = CHR ''-'' \<and> uuid4 r1 r2 ! 13 = CHR ''-''
   \<and> uuid4 r1 r2 ! 18 = CHR ''-'' \<and> uuid4 r1 r2 ! 23 = CHR ''-''
   \<and> uuid4 r1 r2 ! 14 = CHR ''4'' \<and> uuid4 r1 r2 ! 19 \<in> set ''89ab''
   \<and> {uuid4 r1 r2 ! i | i. i < 36 \<and> i \<notin> {8, 13, 18, 23}} \<subseteq> Collect is_lower_hex"
proof -
  define hi where "hi = (r1 AND 0xFFFFFFFFFFFF0FFF) OR 0x4000"
  define lo where "lo = (r2 AND 0x3FFFFFFFFFFFFFFF) OR 0x8000000000000000"
  define a where "a = pad_hex 8 (unat (ucast (drop_bit 32 hi) :: 32 word))"
  define b where "b = pad_hex 4 (unat (ucast (drop_bit 16 hi) :: 16 word))"
  define c where "c = pad_hex 4 (unat (ucast hi :: 16 word))"
  define d where "d = pad_hex 4 (unat (ucast (drop_bit 48 lo) :: 16 word))"
  define e where "e = pad_hex 12 (unat (lo AND 0x0000FFFFFFFFFFFF))"
  have u: "uuid4 r1 r2 = a @ ''-'' @ b @ ''-'' @ c @ ''-'' @ d @ ''-'' @ e"
    by (simp add: uuid4_def Let_def a_def b_def c_def d_def e_def hi_def lo_def)
  have len: "length a = 8" "length b = 4" "length c = 4" "length d = 4" "length e = 12"
    unfolding a_def b_def c_def d_def e_def using unat_and_48[of lo]
    by (simp_all add: length_pad_hex unat16_less unat32_less)
  have c0: "c ! 0 = CHR ''4''"
    using uuid_version[of r1] by (simp add: c_def hi_def pad_hex_4 unat16_less hex_char_def chr_eq_iff)
  have d0: "d ! 0 \<in> set ''89ab''"
    using uuid_variant[of r2]
    by (auto simp: d_def lo_def pad_hex_4 unat16_less hex_char_def chr_eq_iff)
  have "set a \<union> set b \<union> set c \<union> set d \<union> set e \<subseteq> Collect is_lower_hex"
    using pad_hex_lower by (auto simp: a_def b_def c_def d_def e_def)
  then have "{uuid4 r1 r2 ! i | i. i < 36 \<and> i \<notin> {8, 13, 18, 23}} \<subseteq> Collect is_lower_hex"
    using dashed_nth(8)[OF len] unfolding u by blast
  then show ?thesis using c0 d0 dashed_nth(1-7)[OF len] unfolding u by simp
qed


section \<open>URL decoding\<close>

text \<open>
  The encoder on the other side: the browser's \<open>encodeURIComponent\<close>, or any other that writes
  bytes as a percent sign and two hexadecimal digits and leaves alone the bytes of \<open>keep\<close>.
\<close>

definition upper_hex :: "nat \<Rightarrow> char" where
  "upper_hex d = (if d < 10 then chr (48 + d) else chr (55 + d))"

fun percent_encode :: "(char \<Rightarrow> bool) \<Rightarrow> string \<Rightarrow> string" where
  "percent_encode keep [] = []"
| "percent_encode keep (c # s) =
     (if keep c then [c] else [CHR ''%'', upper_hex (byte c div 16), upper_hex (byte c mod 16)])
     @ percent_encode keep s"

lemma upper_hex_props:
  assumes "d < 16"
  shows "hex_val (upper_hex d) = Some d" "\<not> isspace (upper_hex d)" "upper_hex d \<noteq> NUL"
    "upper_hex d \<noteq> CHR ''-''" "upper_hex d \<noteq> CHR ''+''"
  using assms by (auto simp: hex_val_def upper_hex_def isspace_def chr_eq_iff Let_def)

lemma strtol16_hex: "a < 16 \<Longrightarrow> b < 16 \<Longrightarrow> strtol16 [upper_hex a, upper_hex b] = int (16 * a + b)"
  by (simp add: strtol16_def c_str_def scan_sign_def strip_0x_def is_hex_def upper_hex_props)

lemma url_decode_percent_encode:
  assumes "\<not> keep (CHR ''%'')" "\<not> keep (CHR ''+'')"
  shows "url_decode (percent_encode keep s) = s"
proof (induction s)
  case (Cons c s)
  have d: "byte c div 16 < 16" "byte c mod 16 < 16" using byte_less[of c] by linarith+
  have "nat (int (16 * (byte c div 16) + byte c mod 16) mod 256) = byte c"
    by (simp flip: of_nat_mod)
  then have "strtol16 [upper_hex (byte c div 16), upper_hex (byte c mod 16)] mod 256 = int (byte c)"
    using d by (simp add: strtol16_hex)
  then show ?case using Cons assms by (auto simp: numeral_2_eq_2)
qed simp

text \<open>The bytes that \<open>encodeURIComponent\<close> leaves alone.\<close>

definition uri_keep :: "char \<Rightarrow> bool" where
  "uri_keep c \<longleftrightarrow> isdigit c \<or> c \<in> set ''-_.!~*()''
     \<or> 65 \<le> byte c \<and> byte c \<le> 90 \<or> 97 \<le> byte c \<and> byte c \<le> 122 \<or> byte c = 39"

lemma uri_keep_escapes: "\<not> uri_keep (CHR ''%'')" "\<not> uri_keep (CHR ''+'')"
  by (auto simp: uri_keep_def isdigit_def)

interpretation url: codec "\<lambda>_. True" "percent_encode uri_keep" url_decode
  by unfold_locales (simp add: url_decode_percent_encode uri_keep_escapes)

section \<open>Splitting\<close>

lemma split_Nil [simp]: "split [] d = []"
  by (subst split.simps) simp

lemma split_item:
  assumes "d \<notin> set s" "s \<noteq> []"
  shows "split s d = [s]"
proof -
  have "dropWhile (\<lambda>c. c \<noteq> d) s = []" "takeWhile (\<lambda>c. c \<noteq> d) s = s"
    using assms(1) unfolding dropWhile_eq_Nil_conv takeWhile_eq_all_conv by auto
  then show ?thesis
    using assms(2) by (subst split.simps) (simp del: dropWhile_eq_Nil_conv)
qed

lemma split_eq_Nil [simp]: "split s d = [] \<longleftrightarrow> s = []"
  by (subst split.simps) simp

lemma split_delim: "d \<notin> set s \<Longrightarrow> split (s @ d # t) d = s # split t d"
  by (subst split.simps) (simp add: takeWhile_append dropWhile_append)

fun join_with :: "char \<Rightarrow> string list \<Rightarrow> string" where
  "join_with d [] = []"
| "join_with d [p] = p"
| "join_with d (p # q # ps) = p @ d # join_with d (q # ps)"

lemma split_join:
  assumes "\<forall>p \<in> set ps. d \<notin> set p" "ps \<noteq> [] \<longrightarrow> last ps \<noteq> []"
  shows "split (join_with d ps) d = ps"
  using assms by (induction d ps rule: join_with.induct) (auto simp: split_item split_delim)

lemma split_parts:
  "(\<forall>p \<in> set (split s d). d \<notin> set p) \<and>
   (join_with d (split s d) = s \<or> join_with d (split s d) @ [d] = s)"
proof (induction s rule: length_induct)
  case (1 s)
  consider "s = []" | "s \<noteq> []" "d \<notin> set s" | (delim) u t where "s = u @ d # t" "d \<notin> set u"
    using split_list_first[of d s] by blast
  then show ?case
  proof cases
    case (delim u t)
    then have "length t < length s" by simp
    with 1 have IH: "\<forall>p \<in> set (split t d). d \<notin> set p"
      "join_with d (split t d) = t \<or> join_with d (split t d) @ [d] = t" by blast+
    have "split s d = u # split t d" using delim by (simp add: split_delim)
    then show ?thesis using IH delim by (cases "split t d") auto
  qed (auto simp: split_item)
qed

section \<open>Trimming\<close>

lemma trim_eq: "trim s = rev (dropWhile is_ws (rev (dropWhile is_ws s)))"
proof (cases "\<forall>c \<in> set s. is_ws c")
  case True
  then have "dropWhile is_ws s = []" by (rule dropWhile_eq_Nil_conv [THEN iffD2])
  with True show ?thesis
    by (simp add: trim_def find_first_not_ws_def find_last_not_ws_def del: dropWhile_eq_Nil_conv)
next
  case False
  define t where "t = dropWhile is_ws s"
  let ?a = "length (takeWhile is_ws s)" and ?b = "length (takeWhile is_ws (rev s))"
  have t: "t \<noteq> []" "\<not> is_ws (hd t)" using False by (auto simp: t_def hd_dropWhile)
  have s: "s = takeWhile is_ws s @ t" by (simp add: t_def)
  have "\<not> (\<forall>c \<in> set (rev t). is_ws c)" using t by (metis hd_in_set set_rev)
  then have tw: "takeWhile is_ws (rev s) = takeWhile is_ws (rev t)"
    by (subst s) (auto simp: takeWhile_append)
  have "length (takeWhile is_ws (rev t)) < length (rev t)"
    using \<open>\<not> (\<forall>c \<in> set (rev t). is_ws c)\<close>
    by (metis length_takeWhile_le le_neq_implies_less takeWhile_eq_all_conv takeWhile_eq_take take_all_iff)
  then have "?b < length t" using tw by simp
  moreover have "length s = ?a + length t" by (subst s) (simp del: takeWhile_dropWhile_id)
  ultimately have n: "length s - 1 - ?b - ?a + 1 = length t - ?b" by linarith
  have "find_first_not_ws s = Some ?a" "find_last_not_ws s = Some (length s - 1 - ?b)"
    unfolding find_first_not_ws_def find_last_not_ws_def using False by (simp_all only: if_False)
  then have "trim s = take (length t - ?b) t"
    using n by (simp add: trim_def substr_def t_def dropWhile_eq_drop)
  also have "\<dots> = rev (dropWhile is_ws (rev t))"
    using tw by (simp add: dropWhile_eq_drop rev_drop)
  finally show ?thesis by (simp add: t_def)
qed


lemma trim_id:
  assumes "s = [] \<or> \<not> is_ws (hd s) \<and> \<not> is_ws (last s)"
  shows "trim s = s"
  using assms by (cases "s = []") (simp_all add: trim_eq dropWhile_stop hd_rev)

lemma trim_pad:
  assumes "\<forall>c \<in> set a. is_ws c" "\<forall>c \<in> set b. is_ws c"
  shows "trim (a @ s @ b) = trim s"
proof -
  have 1: "dropWhile is_ws (a @ s @ b) = dropWhile is_ws (s @ b)"
    using assms(1) by (simp add: dropWhile_append2)
  have 2: "dropWhile is_ws (rev b @ t) = dropWhile is_ws t" for t
    by (rule dropWhile_append2) (use assms(2) in simp)
  show ?thesis
  proof (cases "\<forall>c \<in> set s. is_ws c")
    case True
    then have "dropWhile is_ws (s @ b) = []" "dropWhile is_ws s = []"
      using assms(2) by (auto intro!: dropWhile_eq_Nil_conv [THEN iffD2])
    then show ?thesis using 1 by (simp add: trim_eq del: dropWhile_eq_Nil_conv)
  next
    case False
    then have "dropWhile is_ws (s @ b) = dropWhile is_ws s @ b"
      by (auto simp: dropWhile_append1)
    then show ?thesis using 1 2 by (simp add: trim_eq)
  qed
qed

section \<open>Escaped text\<close>

lemma json_escape_append: "json_escape (s @ t) = json_escape s @ json_escape t"
  by (induction s) auto

lemma json_escape_empty_iff [simp]: "json_escape s = [] \<longleftrightarrow> s = []"
  by (cases s) (auto simp: json_escape_char_def)

lemma json_escape_char_printable: "\<forall>d \<in> set (json_escape_char c). 32 \<le> byte d"
  using pad_hex_lower[of 4 "byte c"]
  by (auto simp: json_escape_char_def is_lower_hex_def isdigit_def)

section \<open>Properties\<close>

text \<open>
  \<open>url_decode\<close> inverts percent encoding: a client that escapes at least the percent and plus
  signs gets every byte string through a URL unchanged.
\<close>

theorem url_decode_roundtrip:
  assumes "\<not> keep (CHR ''%'')" and "\<not> keep (CHR ''+'')"
  shows "url_decode (percent_encode keep s) = s"
  using assms by (rule url_decode_percent_encode)

theorem url_decode_roundtrip_witness:
  "percent_encode uri_keep ''a/b +%'' = ''a%2Fb%20%2B%25''
   \<and> url_decode (percent_encode uri_keep ''a/b +%'') = ''a/b +%''"
  using url_decode_roundtrip[OF uri_keep_escapes, of "''a/b +%''"]
  by (simp add: uri_keep_def isdigit_def upper_hex_def chr_eq_iff)

text \<open>
  \<open>split\<close> loses nothing but one delimiter at the end of the text: its items hold no
  delimiter, and joining them gives back the text, or the text without its final delimiter.
\<close>

theorem split_lossless:
  "d \<notin> (\<Union>p \<in> set (split s d). set p)
   \<and> (join_with d (split s d) = s \<or> join_with d (split s d) @ [d] = s)"
  using split_parts[of s d] by auto

text \<open>
  A list of items, none with a delimiter inside and the last not empty, is recovered from its
  joined text: the path segments that a client joins are the ones that routing sees.
\<close>

theorem split_roundtrip:
  assumes "\<forall>p \<in> set ps. d \<notin> set p" and "last ps \<noteq> []"
  shows "split (join_with d ps) d = ps"
  using assms by (intro split_join) auto

theorem split_roundtrip_witness:
  "split ''/api/fragments/f-1'' CHR ''/'' = [[], ''api'', ''fragments'', ''f-1'']"
  using split_roundtrip[of "[[], ''api'', ''fragments'', ''f-1'']" "CHR ''/''"] by simp

text \<open>
  \<open>trim\<close> removes exactly the white space at both ends: whatever is added there is ignored,
  and a text without white space at its ends is left alone.
\<close>

theorem trim_spec:
  assumes "\<forall>c \<in> set a. is_ws c" and "\<forall>c \<in> set b. is_ws c"
    and "s = [] \<or> \<not> is_ws (hd s) \<and> \<not> is_ws (last s)"
  shows "trim (a @ s @ b) = s"
  using assms by (simp add: trim_pad trim_id)

theorem trim_spec_witness: "trim ([SP, HT] @ ''Bearer x'' @ [CR]) = ''Bearer x''"
  by (rule trim_spec) (auto simp: is_ws_def)

text \<open>
  Escaped text holds no control character, and escaping never makes text shorter or more than
  six times as long.
\<close>

theorem json_escape_printable:
  "(\<forall>c \<in> set (json_escape s). 32 \<le> byte c)
   \<and> length s \<le> length (json_escape s) \<and> length (json_escape s) \<le> 6 * length s"
proof (induction s)
  case (Cons c s)
  have "length (json_escape_char c) \<le> 6" "1 \<le> length (json_escape_char c)"
    by (auto simp: json_escape_char_def pad_hex_4 less_trans[OF byte_less])
  then show ?case using Cons json_escape_char_printable[of c] by auto
qed simp

end
