(* ===== verification/Database.thy ===== *)
theory Database
  imports Cxx_Std
begin

text \<open>
  \<open>backend/src/database.hpp\<close> and \<open>database.cpp\<close>: the class \<open>Database\<close> over SQLite.  SQLite is a
  library outside the repository, so it is a parameter: a record of the calls that the class makes,
  over an unknown type \<open>'db\<close> of connections.  A prepared statement with its bound values is a
  value of \<open>sql_stmt\<close>, one constructor for each SQL text of the source.  The
  abstract store that the methods refine, the contents of the table \<open>fragments\<close> keyed by its
  primary key, is at the end; what the SQL texts mean, by SQLite's documentation, is stated in the
  locale \<open>sqlite_store\<close> of the theory \<open>Store\<close>.
\<close>

section \<open>Fragments and statements\<close>

record fragment =
  frag_id :: string
  message_id :: string
  chat_id :: string
  sender_hash :: string
  payload :: string
  timestamp :: int
  ttl :: int

text \<open>
  The statements: \<open>INSERT OR IGNORE INTO fragments ... VALUES (?,?,?,?,?,?,?)\<close>;
  \<open>SELECT ... WHERE chat_id = ? AND timestamp > ? ORDER BY timestamp ASC\<close>;
  \<open>SELECT ... WHERE message_id = ? ORDER BY timestamp ASC\<close>;
  \<open>DELETE FROM fragments WHERE id = ?\<close>;
  \<open>DELETE FROM fragments WHERE ttl > 0 AND (timestamp + ttl) <= ?\<close>;
  \<open>SELECT COUNT(*) FROM fragments\<close>.
\<close>

datatype sql_stmt =
    Insert_or_ignore fragment
  | Select_chat string int
  | Select_message string
  | Delete_id string
  | Delete_expired int
  | Select_count

datatype sql_script = Journal_mode_wal | Synchronous_normal | Foreign_keys_on | Create_schema

text \<open>The columns of a result row; a text column may be \<open>NULL\<close>.\<close>

datatype sql_row =
  Sql_row "string option" "string option" "string option" "string option" "string option" int int

datatype step_result = Row sql_row | Stop int

text \<open>
  What the class calls: open, exec (result code and error message), prepare, a step that runs a
  modifying statement, the results of the successive steps of a query, the step of the count
  query with its column, and \<open>sqlite3_changes\<close>.
\<close>

record 'db sqlite =
  sq_open :: "string \<Rightarrow> int \<times> 'db"
  sq_exec :: "sql_script \<Rightarrow> 'db \<Rightarrow> int \<times> string option \<times> 'db"
  sq_prepare :: "sql_stmt \<Rightarrow> 'db \<Rightarrow> int"
  sq_step :: "sql_stmt \<Rightarrow> 'db \<Rightarrow> int \<times> 'db"
  sq_query :: "sql_stmt \<Rightarrow> 'db \<Rightarrow> step_result list"
  sq_count :: "'db \<Rightarrow> int \<times> int"
  sq_changes :: "'db \<Rightarrow> int"

definition SQLITE_OK :: int where "SQLITE_OK = 0"
definition SQLITE_ROW :: int where "SQLITE_ROW = 100"
definition SQLITE_DONE :: int where "SQLITE_DONE = 101"

lemmas sqlite_codes = SQLITE_OK_def SQLITE_ROW_def SQLITE_DONE_def

section \<open>The methods\<close>

datatype cxx_exception = Runtime_error string

definition check_rc :: "int \<Rightarrow> string \<Rightarrow> cxx_exception + unit" where
  "check_rc rc ctxt =
     (if rc \<noteq> SQLITE_OK \<and> rc \<noteq> SQLITE_ROW \<and> rc \<noteq> SQLITE_DONE
      then Inl (Runtime_error (''SQLite error ('' @ ctxt @ ''): '' @ show_int rc))
      else Inr ())"

definition exec_script :: "'db sqlite \<Rightarrow> sql_script \<Rightarrow> 'db \<Rightarrow> cxx_exception + 'db" where
  "exec_script eng sql db =
     (case sq_exec eng sql db of (rc, err, db') \<Rightarrow>
        if rc \<noteq> SQLITE_OK
        then Inl (Runtime_error (''SQLite exec error: ''
               @ (case err of Some m \<Rightarrow> m | None \<Rightarrow> ''(unknown)'')))
        else Inr db')"

fun exec_scripts :: "'db sqlite \<Rightarrow> sql_script list \<Rightarrow> 'db \<Rightarrow> cxx_exception + 'db" where
  "exec_scripts eng [] db = Inr db"
| "exec_scripts eng (sql # sqls) db =
     (case exec_script eng sql db of Inl e \<Rightarrow> Inl e | Inr db' \<Rightarrow> exec_scripts eng sqls db')"

text \<open>The constructor.\<close>

definition database_open :: "'db sqlite \<Rightarrow> string \<Rightarrow> cxx_exception + 'db" where
  "database_open eng path =
     (case sq_open eng (c_str path) of (rc, db) \<Rightarrow>
        case check_rc rc ''open'' of
          Inl e \<Rightarrow> Inl e
        | Inr _ \<Rightarrow> exec_scripts eng
            [Journal_mode_wal, Synchronous_normal, Foreign_keys_on, Create_schema] db)"

text \<open>\<open>sqlite3_bind_text(stmt, k, s.c_str(), -1, ...)\<close> binds the bytes up to the first NUL.\<close>

definition bind_fragment :: "fragment \<Rightarrow> fragment" where
  "bind_fragment f =
     \<lparr>frag_id = c_str (frag_id f), message_id = c_str (message_id f), chat_id = c_str (chat_id f),
      sender_hash = c_str (sender_hash f), payload = c_str (payload f),
      timestamp = timestamp f, ttl = ttl f\<rparr>"

text \<open>
  Prepare a modifying statement and step it.  The result of the step is checked only where the
  method has a message for it (\<open>purge_expired\<close> has none); then \<open>sqlite3_changes\<close> is read.
\<close>

definition run_dml ::
    "'db sqlite \<Rightarrow> string \<Rightarrow> string option \<Rightarrow> sql_stmt \<Rightarrow> 'db \<Rightarrow> (cxx_exception + int) \<times> 'db" where
  "run_dml eng prep_msg step_msg stmt db =
     (case check_rc (sq_prepare eng stmt db) prep_msg of
        Inl e \<Rightarrow> (Inl e, db)
      | Inr _ \<Rightarrow>
          (case sq_step eng stmt db of (rc, db') \<Rightarrow>
             case (case step_msg of None \<Rightarrow> Inr () | Some m \<Rightarrow> check_rc rc m) of
               Inl e \<Rightarrow> (Inl e, db')
             | Inr _ \<Rightarrow> (Inr (sq_changes eng db'), db')))"

definition insert_fragment :: "'db sqlite \<Rightarrow> fragment \<Rightarrow> 'db \<Rightarrow> (cxx_exception + bool) \<times> 'db" where
  "insert_fragment eng f db =
     (case run_dml eng ''prepare insert'' (Some ''step insert'') (Insert_or_ignore (bind_fragment f)) db of
        (Inl e, db') \<Rightarrow> (Inl e, db')
      | (Inr n, db') \<Rightarrow> (Inr (0 < n), db'))"

definition delete_fragment :: "'db sqlite \<Rightarrow> string \<Rightarrow> 'db \<Rightarrow> (cxx_exception + bool) \<times> 'db" where
  "delete_fragment eng i db =
     (case run_dml eng ''prepare delete'' (Some ''step delete'') (Delete_id (c_str i)) db of
        (Inl e, db') \<Rightarrow> (Inl e, db')
      | (Inr n, db') \<Rightarrow> (Inr (0 < n), db'))"

text \<open>The clock value \<open>now\<close> is read first.\<close>

definition purge_expired :: "'db sqlite \<Rightarrow> int \<Rightarrow> 'db \<Rightarrow> (cxx_exception + int) \<times> 'db" where
  "purge_expired eng now db = run_dml eng ''prepare purge'' None (Delete_expired now) db"

text \<open>The lambda \<open>col_text\<close>, and the loop \<open>while (sqlite3_step(stmt) == SQLITE_ROW)\<close>.\<close>

definition col_text :: "string option \<Rightarrow> string" where
  "col_text p = (case p of Some s \<Rightarrow> c_str s | None \<Rightarrow> [])"

fun read_row :: "sql_row \<Rightarrow> fragment" where
  "read_row (Sql_row a b c d e t l) =
     \<lparr>frag_id = col_text a, message_id = col_text b, chat_id = col_text c,
      sender_hash = col_text d, payload = col_text e, timestamp = t, ttl = l\<rparr>"

fun fetch_rows :: "step_result list \<Rightarrow> fragment list" where
  "fetch_rows (Row r # rs) = read_row r # fetch_rows rs"
| "fetch_rows _ = []"

definition get_fragments :: "'db sqlite \<Rightarrow> string \<Rightarrow> int \<Rightarrow> 'db \<Rightarrow> cxx_exception + fragment list" where
  "get_fragments eng c since db =
     (let stmt = Select_chat (c_str c) since
      in case check_rc (sq_prepare eng stmt db) ''prepare get'' of
           Inl e \<Rightarrow> Inl e
         | Inr _ \<Rightarrow> Inr (fetch_rows (sq_query eng stmt db)))"

definition get_message_fragments :: "'db sqlite \<Rightarrow> string \<Rightarrow> 'db \<Rightarrow> cxx_exception + fragment list" where
  "get_message_fragments eng m db =
     (let stmt = Select_message (c_str m)
      in case check_rc (sq_prepare eng stmt db) ''prepare get_msg'' of
           Inl e \<Rightarrow> Inl e
         | Inr _ \<Rightarrow> Inr (fetch_rows (sq_query eng stmt db)))"

definition get_fragment_count :: "'db sqlite \<Rightarrow> 'db \<Rightarrow> cxx_exception + int" where
  "get_fragment_count eng db =
     (case check_rc (sq_prepare eng Select_count db) ''prepare count'' of
        Inl e \<Rightarrow> Inl e
      | Inr _ \<Rightarrow> (case sq_count eng db of (rc, n) \<Rightarrow> Inr (if rc = SQLITE_ROW then n else 0)))"

section \<open>The abstract store\<close>

type_synonym store = "string \<rightharpoonup> fragment"

definition expired :: "int \<Rightarrow> fragment \<Rightarrow> bool" where
  "expired now f \<longleftrightarrow> 0 < ttl f \<and> timestamp f + ttl f \<le> now"

definition store_insert :: "fragment \<Rightarrow> store \<Rightarrow> bool \<times> store" where
  "store_insert f s = (case s (frag_id f) of None \<Rightarrow> (True, s(frag_id f \<mapsto> f)) | Some _ \<Rightarrow> (False, s))"

definition store_delete :: "string \<Rightarrow> store \<Rightarrow> bool \<times> store" where
  "store_delete i s = (s i \<noteq> None, s(i := None))"

definition store_purge :: "int \<Rightarrow> store \<Rightarrow> store" where
  "store_purge now s = (\<lambda>i. case s i of None \<Rightarrow> None | Some f \<Rightarrow> if expired now f then None else Some f)"

definition in_chat :: "string \<Rightarrow> int \<Rightarrow> fragment \<Rightarrow> bool" where
  "in_chat c since f \<longleftrightarrow> chat_id f = c \<and> since < timestamp f"

definition in_message :: "string \<Rightarrow> fragment \<Rightarrow> bool" where
  "in_message m f \<longleftrightarrow> message_id f = m"

text \<open>A correct answer to a query: the matching fragments, each once, in order of time.\<close>

definition answers :: "store \<Rightarrow> (fragment \<Rightarrow> bool) \<Rightarrow> fragment list \<Rightarrow> bool" where
  "answers s P fs \<longleftrightarrow> distinct fs \<and> sorted (map timestamp fs) \<and> set fs = {f \<in> ran s. P f}"

text \<open>No text of the store holds a NUL byte; key and stored id agree.\<close>

definition nul_free :: "fragment \<Rightarrow> bool" where
  "nul_free f \<longleftrightarrow> NUL \<notin> set (frag_id f) \<and> NUL \<notin> set (message_id f) \<and> NUL \<notin> set (chat_id f)
     \<and> NUL \<notin> set (sender_hash f) \<and> NUL \<notin> set (payload f)"

definition store_wf :: "store \<Rightarrow> bool" where
  "store_wf s \<longleftrightarrow> finite (dom s) \<and> (\<forall>i f. s i = Some f \<longrightarrow> frag_id f = i \<and> nul_free f)"

lemma bind_fragment_id [simp]: "frag_id (bind_fragment f) = c_str (frag_id f)"
  by (simp add: bind_fragment_def)

lemma nul_free_bind [simp]: "nul_free (bind_fragment f)"
  by (simp add: nul_free_def bind_fragment_def)

lemma bind_nul_free: "nul_free f \<Longrightarrow> bind_fragment f = f"
  by (simp add: nul_free_def bind_fragment_def c_str_id)

lemma store_wf_insert: "store_wf s \<Longrightarrow> nul_free f \<Longrightarrow> store_wf (snd (store_insert f s))"
  by (auto simp: store_wf_def store_insert_def split: option.splits)

lemma store_wf_delete: "store_wf s \<Longrightarrow> store_wf (snd (store_delete i s))"
  by (auto simp: store_wf_def store_delete_def)

lemma dom_store_purge: "dom (store_purge now s) = dom s - {i. \<exists>f. s i = Some f \<and> expired now f}"
  by (auto simp: store_purge_def dom_def split: option.splits if_splits)

lemma store_wf_purge: "store_wf s \<Longrightarrow> store_wf (store_purge now s)"
  unfolding store_wf_def dom_store_purge
  by (auto simp: store_purge_def split: option.splits if_splits)

lemma store_wf_empty: "store_wf Map.empty"
  by (simp add: store_wf_def)

end
