(* ===== verification/Json.thy ===== *)
theory Json
  imports Utils Database
begin

text \<open>
  The JSON reader and writer of \<open>backend/src/handlers.cpp\<close> (namespaces \<open>json_read\<close> and
  \<open>json_build\<close>).  The reader is a text scan, not a parser: it looks for the quoted key anywhere in
  the text.  The lemmas say on which objects the scan finds the value that a JSON parser would.
\<close>

section \<open>Reading\<close>

definition unescape :: "char \<Rightarrow> char" where
  "unescape nc =
     (if nc = CHR ''n'' then LF else if nc = CHR ''r'' then CR else if nc = CHR ''t'' then HT else nc)"

text \<open>The loop from the opening quote of the value.\<close>

fun read_string :: "string \<Rightarrow> string" where
  "read_string [] = []"
| "read_string [c] = (if c = DQ then [] else [c])"
| "read_string (c # nc # s) =
     (if c = BS then unescape nc # read_string s
      else if c = DQ then []
      else c # read_string (nc # s))"

definition quoted :: "string \<Rightarrow> string" where
  "quoted key = DQ # key @ [DQ]"

text \<open>The position of the colon after the first occurrence of the quoted key.\<close>

definition find_colon :: "string \<Rightarrow> string \<Rightarrow> nat option" where
  "find_colon json key = (case str_find json (quoted key) 0 of
      None \<Rightarrow> None
    | Some kpos \<Rightarrow> find_char json (CHR '':'') (kpos + length (quoted key)))"

definition extract_string :: "string \<Rightarrow> string \<Rightarrow> string" where
  "extract_string json key = (case find_colon json key of
      None \<Rightarrow> []
    | Some colon \<Rightarrow> (case find_char json DQ (colon + 1) of
        None \<Rightarrow> []
      | Some vstart \<Rightarrow> read_string (substr_from json (vstart + 1))))"

definition extract_int :: "string \<Rightarrow> string \<Rightarrow> int \<Rightarrow> int" where
  "extract_int json key default_val = (case find_colon json key of
      None \<Rightarrow> default_val
    | Some colon \<Rightarrow>
        let vtext = dropWhile (\<lambda>c. c = SP \<or> c = HT) (substr_from json (colon + 1))
        in case stoll vtext of Inl _ \<Rightarrow> default_val | Inr v \<Rightarrow> v)"

section \<open>Writing\<close>

definition fragment_to_json :: "fragment \<Rightarrow> string" where
  "fragment_to_json f =
     ''{''
     @ quoted ''id'' @ '':'' @ quoted (json_escape (frag_id f)) @ '',''
     @ quoted ''message_id'' @ '':'' @ quoted (json_escape (message_id f)) @ '',''
     @ quoted ''chat_id'' @ '':'' @ quoted (json_escape (chat_id f)) @ '',''
     @ quoted ''sender_hash'' @ '':'' @ quoted (json_escape (sender_hash f)) @ '',''
     @ quoted ''payload'' @ '':'' @ quoted (json_escape (payload f)) @ '',''
     @ quoted ''timestamp'' @ '':'' @ show_int (timestamp f) @ '',''
     @ quoted ''ttl'' @ '':'' @ show_int (ttl f)
     @ ''}''"

fun comma_rest :: "fragment list \<Rightarrow> string" where
  "comma_rest [] = []"
| "comma_rest (f # fs) = '','' @ fragment_to_json f @ comma_rest fs"

definition fragments_array :: "fragment list \<Rightarrow> string" where
  "fragments_array frags =
     ''['' @ (case frags of [] \<Rightarrow> [] | f # fs \<Rightarrow> fragment_to_json f @ comma_rest fs) @ '']''"

section \<open>Strings\<close>

text \<open>The texts that the writer escapes without a numeric escape.\<close>

definition json_plain :: "string \<Rightarrow> bool" where
  "json_plain s \<longleftrightarrow> (\<forall>c \<in> set s. 32 \<le> byte c \<or> c = LF \<or> c = CR \<or> c = HT)"

lemma json_plain_Cons: "json_plain (c # s) \<longleftrightarrow> (32 \<le> byte c \<or> c = LF \<or> c = CR \<or> c = HT) \<and> json_plain s"
  by (auto simp: json_plain_def)

lemma read_string_plain: "c \<noteq> BS \<Longrightarrow> c \<noteq> DQ \<Longrightarrow> read_string (c # s) = c # read_string s"
  by (cases s) auto

lemma read_string_escape:
  "json_plain s \<Longrightarrow> read_string (json_escape s @ DQ # t) = s"
proof (induction s)
  case Nil
  then show ?case by (cases t) simp_all
next
  case (Cons c s)
  then show ?case
    by (auto simp: json_plain_Cons json_escape_char_def unescape_def read_string_plain)
qed

interpretation json: codec json_plain "\<lambda>s. json_escape s @ [DQ]" read_string
  by unfold_locales (simp add: read_string_escape)

section \<open>Objects\<close>

text \<open>A text cut at its double quotes: every piece is preceded by one.\<close>

definition dq_pieces :: "string list \<Rightarrow> string" where
  "dq_pieces ps = concat (map (\<lambda>p. DQ # p) ps)"

lemma dq_pieces_simps [simp]:
  "dq_pieces [] = []" "dq_pieces (p # ps) = DQ # p @ dq_pieces ps"
  by (simp_all add: dq_pieces_def)

lemma find_quoted:
  assumes "DQ \<notin> set k" "\<forall>p \<in> set ps. DQ \<notin> set p \<and> p \<noteq> k"
  shows "find_sub (quoted k) (dq_pieces ps @ quoted k @ t) = Some (length (dq_pieces ps))"
  using assms(2)
proof (induction ps)
  case Nil
  then show ?case by (simp add: find_sub_prefix)
next
  case (Cons p ps)
  let ?rest = "dq_pieces ps @ quoted k @ t"
  obtain r where r: "?rest = DQ # r" by (cases ps) (auto simp: quoted_def)
  have "\<not> prefix (k @ [DQ]) (p @ DQ # r)"
    using split_at_unique[OF assms(1), of p r] Cons.prems by auto
  then have "find_sub (quoted k) (DQ # p @ ?rest) = map_option Suc (find_sub (quoted k) (p @ ?rest))"
    unfolding r by (simp add: quoted_def)
  also have "find_sub (quoted k) (p @ ?rest) = Some (length p + length (dq_pieces ps))"
    using find_sub_skip[of DQ p "k @ [DQ]" ?rest] Cons by (simp add: quoted_def)
  finally show ?case by simp
qed

lemma find_colon_at:
  assumes "DQ \<notin> set p0" "DQ \<notin> set k" "\<forall>p \<in> set ps. DQ \<notin> set p \<and> p \<noteq> k"
  defines "w \<equiv> p0 @ dq_pieces ps @ quoted k"
  shows "find_colon (w @ CHR '':'' # t) k = Some (length w)"
proof -
  have "find_sub (quoted k) (p0 @ dq_pieces ps @ quoted k @ CHR '':'' # t)
      = Some (length p0 + length (dq_pieces ps))"
    using find_sub_skip[OF assms(1), of "k @ [DQ]"] find_quoted[OF assms(2,3)] by (simp add: quoted_def)
  then show ?thesis
    using find_char_append[of "CHR '':''" "[]" w "length w" t]
    by (simp add: find_colon_def str_find_0 w_def add.assoc)
qed

lemma substr_from_skip: "substr_from (w @ a # b # t) (length w + 2) = t"
  by (simp add: substr_from_def)

lemma extract_string_at:
  assumes "DQ \<notin> set p0" "DQ \<notin> set k" "\<forall>p \<in> set ps. DQ \<notin> set p \<and> p \<noteq> k" "json_plain v"
  shows "extract_string (p0 @ dq_pieces ps @ quoted k @ CHR '':'' # quoted (json_escape v) @ t) k = v"
proof -
  let ?w = "p0 @ dq_pieces ps @ quoted k"
  have "find_char (?w @ CHR '':'' # DQ # json_escape v @ DQ # t) DQ (length ?w + 1) = Some (length ?w + 1)"
    using find_char_append[of DQ "[]" "?w @ [CHR '':'']" "length ?w + 1"] by simp
  then show ?thesis
    using find_colon_at[OF assms(1-3), of "quoted (json_escape v) @ t"] read_string_escape[OF assms(4)]
      substr_from_skip[of ?w "CHR '':''" DQ "json_escape v @ DQ # t"]
    by (simp add: extract_string_def quoted_def)
qed

lemma extract_int_at:
  assumes "DQ \<notin> set p0" "DQ \<notin> set k" "\<forall>p \<in> set ps. DQ \<notin> set p \<and> p \<noteq> k"
    and "int64_range i" "t = [] \<or> \<not> isdigit (hd t)"
  shows "extract_int (p0 @ dq_pieces ps @ quoted k @ CHR '':'' # show_int i @ t) k d = i"
proof -
  obtain c cs where c: "show_int i = c # cs" "c = CHR ''-'' \<or> isdigit c"
    using show_int_hd by blast
  have "dropWhile (\<lambda>c. c = SP \<or> c = HT) (show_int i @ t) = show_int i @ t"
    using c by (auto simp: isdigit_def)
  then show ?thesis
    using find_colon_at[OF assms(1-3), of "show_int i @ t"] stoll_show_int[OF assms(4,5)]
    by (simp add: extract_int_def substr_from_def)
qed


section \<open>Fragments\<close>

text \<open>The keys of a fragment object, and the values that its scan reads back.\<close>

definition frag_keys :: "string set" where
  "frag_keys = {''id'', ''message_id'', ''chat_id'', ''sender_hash'', ''payload'', ''timestamp'', ''ttl''}"

definition scannable :: "string \<Rightarrow> bool" where
  "scannable v \<longleftrightarrow> json_plain v \<and> DQ \<notin> set v \<and> v \<notin> frag_keys"

definition frag_scannable :: "fragment \<Rightarrow> bool" where
  "frag_scannable f \<longleftrightarrow> scannable (frag_id f) \<and> scannable (message_id f) \<and> scannable (chat_id f)
     \<and> scannable (sender_hash f) \<and> scannable (payload f) \<and> int64_range (timestamp f) \<and> int64_range (ttl f)"

lemma escape_no_DQ: "DQ \<notin> set v \<Longrightarrow> DQ \<notin> set (json_escape v)"
proof (induction v)
  case (Cons c v)
  have "DQ \<notin> set (pad_hex 4 (byte c))"
    using pad_hex_lower[of 4 "byte c"] by (auto simp: is_lower_hex_def isdigit_def)
  then show ?case using Cons by (auto simp: json_escape_char_def)
qed simp

lemma escape_no_BS: "BS \<notin> set (json_escape v) \<Longrightarrow> json_escape v = v"
  by (induction v) (auto simp: json_escape_char_def split: if_splits)

lemma escape_not_key: "v \<notin> frag_keys \<Longrightarrow> json_escape v \<notin> frag_keys"
  using escape_no_BS[of v] by (auto simp: frag_keys_def)

lemma scannable_piece:
  "scannable v \<Longrightarrow> DQ \<notin> set (json_escape v) \<and> json_escape v \<notin> frag_keys \<and> json_plain v"
  by (simp add: scannable_def escape_no_DQ escape_not_key)

section \<open>Objects as the clients write them\<close>

text \<open>
  An object with string and integer members, in the order given and without white space: the form
  that \<open>fragment_to_json\<close> and the client's \<open>JSON.stringify\<close> produce.
\<close>

datatype json_value = Js_string string | Js_int int

fun value_text :: "json_value \<Rightarrow> string" where
  "value_text (Js_string v) = quoted (json_escape v)"
| "value_text (Js_int i) = show_int i"

definition member_text :: "string \<times> json_value \<Rightarrow> string" where
  "member_text m = quoted (fst m) @ '':'' @ value_text (snd m)"

fun members_text :: "(string \<times> json_value) list \<Rightarrow> string" where
  "members_text [] = []"
| "members_text [m] = member_text m"
| "members_text (m # n # ms) = member_text m @ '','' @ members_text (n # ms)"

definition object_text :: "(string \<times> json_value) list \<Rightarrow> string" where
  "object_text ms = ''{'' @ members_text ms @ ''}''"

text \<open>What a member contributes to the pieces, with the text that follows it.\<close>

fun member_pieces :: "string \<Rightarrow> string \<times> json_value \<Rightarrow> string list" where
  "member_pieces sep (k, Js_string v) = [k, '':'', json_escape v, sep]"
| "member_pieces sep (k, Js_int i) = [k, '':'' @ show_int i @ sep]"

fun member_ok :: "string \<times> json_value \<Rightarrow> bool" where
  "member_ok (k, Js_string v) \<longleftrightarrow> DQ \<notin> set k \<and> scannable v"
| "member_ok (k, Js_int i) \<longleftrightarrow> DQ \<notin> set k"

lemma member_text_pieces: "member_text m @ sep @ t = dq_pieces (member_pieces sep m) @ t"
  by (cases "(sep, m)" rule: member_pieces.cases) (auto simp: member_text_def quoted_def)

lemma members_text_split:
  "members_text (pre @ m # post)
    = dq_pieces (concat (map (member_pieces '','') pre)) @ member_text m
      @ (if post = [] then [] else '','' @ members_text post)"
proof (induction pre)
  case Nil
  then show ?case by (cases post) auto
next
  case (Cons p pre)
  obtain q qs where q: "pre @ m # post = q # qs" by (cases pre) auto
  have "members_text ((p # pre) @ m # post) = member_text p @ '','' @ members_text (pre @ m # post)"
    unfolding append_Cons q by simp
  then show ?case
    using Cons.IH member_text_pieces[of p "'',''" "members_text (pre @ m # post)"]
    by (simp add: dq_pieces_def)
qed

lemma show_int_no_DQ: "DQ \<notin> set (show_int i)"
  using show_nat_digits[of "nat i"] show_nat_digits[of "nat (- i)"]
  by (auto simp: show_int_def isdigit_def)

lemma member_pieces_ok:
  assumes "member_ok m" "fst m \<noteq> k" "k \<in> frag_keys" "sep \<in> {'','', ''}''}" "p \<in> set (member_pieces sep m)"
  shows "DQ \<notin> set p \<and> p \<noteq> k"
proof (cases "(sep, m)" rule: member_pieces.cases)
  case (1 sep' k' v)
  then have "p = k' \<or> p = '':'' \<or> p = json_escape v \<or> p = sep" using assms(5) by auto
  moreover have "'':'' \<notin> frag_keys" "'','' \<notin> frag_keys" "''}'' \<notin> frag_keys" by (simp_all add: frag_keys_def)
  moreover have "scannable v" "DQ \<notin> set k'" "k' \<noteq> k" using 1 assms(1,2) by auto
  ultimately show ?thesis using scannable_piece[of v] assms(3,4) by auto
next
  case (2 sep' k' i)
  then have "p = k' \<or> p = '':'' @ show_int i @ sep" using assms(5) by auto
  moreover have "'':'' @ show_int i @ sep \<notin> frag_keys" by (simp add: frag_keys_def)
  ultimately show ?thesis using 2 assms(1-4) show_int_no_DQ[of i] by auto
qed

lemma frag_key_no_DQ: "k \<in> frag_keys \<Longrightarrow> DQ \<notin> set k"
  by (auto simp: frag_keys_def)

lemma all_pieces_ok:
  assumes "\<forall>m \<in> set ms. member_ok m \<and> fst m \<noteq> k" "k \<in> frag_keys" "sep \<in> {'','', ''}''}"
  shows "\<forall>p \<in> set (concat (map (member_pieces sep) ms)). DQ \<notin> set p \<and> p \<noteq> k"
proof
  fix p assume "p \<in> set (concat (map (member_pieces sep) ms))"
  then obtain m where "m \<in> set ms" "p \<in> set (member_pieces sep m)" by auto
  with assms show "DQ \<notin> set p \<and> p \<noteq> k" by (intro member_pieces_ok[of m]) auto
qed

text \<open>A key is found at its member when the members before it can be scanned.\<close>

lemma object_text_split:
  "\<exists>t. t \<noteq> [] \<and> \<not> isdigit (hd t) \<and> object_text (pre @ (k, v) # post)
    = ''{'' @ dq_pieces (concat (map (member_pieces '','') pre)) @ quoted k @ CHR '':'' # value_text v @ t"
proof -
  let ?t = "(if post = [] then [] else '','' @ members_text post) @ ''}''"
  have "object_text (pre @ (k, v) # post)
    = ''{'' @ dq_pieces (concat (map (member_pieces '','') pre)) @ quoted k @ CHR '':'' # value_text v @ ?t"
    by (simp only: object_text_def members_text_split member_text_def fst_conv snd_conv
      append_assoc append_Cons append_Nil)
  moreover have "?t \<noteq> [] \<and> \<not> isdigit (hd ?t)" by (simp add: isdigit_def)
  ultimately show ?thesis by blast
qed

lemma extract_string_member:
  assumes "\<forall>m \<in> set pre. member_ok m \<and> fst m \<noteq> k" "k \<in> frag_keys" "json_plain v"
  shows "extract_string (object_text (pre @ (k, Js_string v) # post)) k = v"
proof -
  obtain t where t: "object_text (pre @ (k, Js_string v) # post)
    = ''{'' @ dq_pieces (concat (map (member_pieces '','') pre)) @ quoted k
        @ CHR '':'' # quoted (json_escape v) @ t"
    using object_text_split[of pre k "Js_string v" post] by auto
  show ?thesis
    unfolding t
    by (rule extract_string_at[OF _ frag_key_no_DQ[OF assms(2)] all_pieces_ok[OF assms(1,2)] assms(3)]) simp_all
qed

lemma extract_int_member:
  assumes "\<forall>m \<in> set pre. member_ok m \<and> fst m \<noteq> k" "k \<in> frag_keys" "int64_range i"
  shows "extract_int (object_text (pre @ (k, Js_int i) # post)) k d = i"
proof -
  obtain t where t: "\<not> isdigit (hd t)" "object_text (pre @ (k, Js_int i) # post)
    = ''{'' @ dq_pieces (concat (map (member_pieces '','') pre)) @ quoted k @ CHR '':'' # show_int i @ t"
    using object_text_split[of pre k "Js_int i" post] by auto
  show ?thesis
    unfolding t(2)
    by (rule extract_int_at[OF _ frag_key_no_DQ[OF assms(2)] all_pieces_ok[OF assms(1,2)] assms(3)])
      (use t(1) in simp_all)
qed

lemma find_quoted_None:
  assumes "DQ \<notin> set k" "\<forall>p \<in> set ps. DQ \<notin> set p \<and> p \<noteq> k"
  shows "find_sub (quoted k) (dq_pieces ps) = None"
  using assms(2)
proof (induction ps)
  case Nil
  then show ?case by (simp add: quoted_def)
next
  case (Cons p ps)
  have "\<not> prefix (k @ [DQ]) (p @ dq_pieces ps)"
  proof (cases ps)
    case Nil
    then show ?thesis using Cons.prems by (auto simp: prefix_def)
  next
    case (Cons q qs)
    then show ?thesis using split_at_unique[OF assms(1), of p "q @ dq_pieces qs"] Cons.prems by auto
  qed
  moreover have "find_sub (quoted k) (p @ dq_pieces ps) = None"
    using find_sub_skip[of DQ p "k @ [DQ]" "dq_pieces ps"] Cons by (simp add: quoted_def)
  ultimately show ?case by (simp add: quoted_def)
qed

lemma missing_key:
  assumes "ms \<noteq> []" "\<forall>m \<in> set ms. member_ok m \<and> fst m \<noteq> k" "k \<in> frag_keys"
  shows "extract_string (object_text ms) k = []" "extract_int (object_text ms) k d = d"
proof -
  obtain pre m where ms: "ms = pre @ [m]" using assms(1) rev_exhaust by blast
  let ?ps = "concat (map (member_pieces '','') pre) @ member_pieces ''}'' m"
  have "object_text ms = ''{'' @ dq_pieces ?ps"
    using member_text_pieces[of m "''}''" "[]"]
    unfolding object_text_def ms members_text_split by (simp add: dq_pieces_def)
  moreover have "\<forall>p \<in> set ?ps. DQ \<notin> set p \<and> p \<noteq> k"
    using all_pieces_ok[of pre k "'',''"] all_pieces_ok[of "[m]" k "''}''"] assms(2,3) ms by auto
  ultimately have "find_colon (object_text ms) k = None"
    using find_quoted_None[OF frag_key_no_DQ[OF assms(3)], of ?ps]
      find_sub_skip[of DQ "''{''" "k @ [DQ]" "dq_pieces ?ps"]
    by (simp add: find_colon_def str_find_0 quoted_def)
  then show "extract_string (object_text ms) k = []" "extract_int (object_text ms) k d = d"
    by (simp_all add: extract_string_def extract_int_def)
qed

definition fragment_members :: "fragment \<Rightarrow> (string \<times> json_value) list" where
  "fragment_members f =
    [(''id'', Js_string (frag_id f)), (''message_id'', Js_string (message_id f)),
     (''chat_id'', Js_string (chat_id f)), (''sender_hash'', Js_string (sender_hash f)),
     (''payload'', Js_string (payload f)), (''timestamp'', Js_int (timestamp f)), (''ttl'', Js_int (ttl f))]"

lemma fragment_to_json_members: "fragment_to_json f = object_text (fragment_members f)"
  by (simp add: fragment_to_json_def object_text_def fragment_members_def member_text_def)

lemma extract_string_lookup:
  assumes "\<forall>m \<in> set ms. member_ok m" "distinct (map fst ms)" "(k, Js_string v) \<in> set ms" "k \<in> frag_keys"
  shows "extract_string (object_text ms) k = v"
proof -
  obtain pre post where ms: "ms = pre @ (k, Js_string v) # post" using split_list[OF assms(3)] by blast
  have "scannable v" using assms(1) ms by auto
  then show ?thesis
    unfolding ms using assms(1,2,4) by (intro extract_string_member) (auto simp: ms scannable_def)
qed

lemma extract_int_lookup:
  assumes "\<forall>m \<in> set ms. member_ok m" "distinct (map fst ms)" "(k, Js_int i) \<in> set ms" "k \<in> frag_keys"
    and "int64_range i"
  shows "extract_int (object_text ms) k d = i"
proof -
  obtain pre post where ms: "ms = pre @ (k, Js_int i) # post" using split_list[OF assms(3)] by blast
  then show ?thesis
    unfolding ms using assms(1,2,4,5) by (intro extract_int_member) (auto simp: ms)
qed

section \<open>Properties\<close>

text \<open>
  The reader undoes the writer on every text without the control characters that need a
  numeric escape, whatever follows the closing quote.
\<close>

theorem json_string_roundtrip:
  assumes "json_plain s"
  shows "read_string (json_escape s @ DQ # t) = s"
  using assms by (rule read_string_escape)

theorem json_string_roundtrip_witness:
  "read_string (json_escape [DQ, BS, LF, CHR ''a''] @ DQ # '',x'') = [DQ, BS, LF, CHR ''a'']"
  by (rule json_string_roundtrip) (simp add: json_plain_def)

text \<open>
  The other control characters come back as the text of their escape: the writer emits
  \<open>\u00XX\<close>, the reader drops only the backslash.
\<close>

theorem control_character_mangled:
  assumes "byte c < 32" "c \<notin> {LF, CR, HT}"
  shows "read_string (json_escape [c] @ DQ # t)
    = [CHR ''u'', CHR ''0'', CHR ''0'', hex_char (byte c div 16), hex_char (byte c mod 16)]"
proof -
  have "byte c div 4096 = 0" "byte c div 256 mod 16 = 0" "byte c div 16 mod 16 = byte c div 16"
    using assms(1) by auto
  then have p: "pad_hex 4 (byte c)
      = [CHR ''0'', CHR ''0'', hex_char (byte c div 16), hex_char (byte c mod 16)]"
    using pad_hex_4[of "byte c"] assms(1) by (simp add: hex_char_0)
  have lt: "byte c div 16 < 16" "byte c mod 16 < 16"
    using assms(1) by (simp_all add: less_mult_imp_div_less)
  have "hex_char (byte c div 16) \<notin> {DQ, BS}" "hex_char (byte c mod 16) \<notin> {DQ, BS}"
    using is_lower_hex_char[OF lt(1)] is_lower_hex_char[OF lt(2)]
    by (auto simp: is_lower_hex_def isdigit_def)
  moreover have "json_escape [c] = [BS, CHR ''u''] @ pad_hex 4 (byte c)"
    using assms by (auto simp: json_escape_char_def)
  ultimately show ?thesis
    using p by (cases t) (simp_all add: read_string_plain unescape_def)
qed

theorem control_character_mangled_witness:
  "read_string (json_escape [CHR 0x01] @ DQ # [])
    = [CHR ''u'', CHR ''0'', CHR ''0'', hex_char (byte (CHR 0x01) div 16), hex_char (byte (CHR 0x01) mod 16)]"
  by (rule control_character_mangled) simp_all

text \<open>
  What \<open>fragment_to_json\<close> writes, the scan reads back, member for member, when no text holds
  a double quote or equals a key of the object.
\<close>

theorem fragment_scan:
  assumes "frag_scannable f"
  shows "extract_string (fragment_to_json f) ''id'' = frag_id f
    \<and> extract_string (fragment_to_json f) ''message_id'' = message_id f
    \<and> extract_string (fragment_to_json f) ''chat_id'' = chat_id f
    \<and> extract_string (fragment_to_json f) ''sender_hash'' = sender_hash f
    \<and> extract_string (fragment_to_json f) ''payload'' = payload f
    \<and> extract_int (fragment_to_json f) ''timestamp'' d = timestamp f
    \<and> extract_int (fragment_to_json f) ''ttl'' d = ttl f"
proof -
  let ?ms = "fragment_members f"
  have ok: "\<forall>m \<in> set ?ms. member_ok m" "distinct (map fst ?ms)"
    using assms by (simp_all add: frag_scannable_def fragment_members_def)
  have int: "int64_range (timestamp f)" "int64_range (ttl f)"
    using assms by (simp_all add: frag_scannable_def)
  show ?thesis
    unfolding fragment_to_json_members
    by (intro conjI extract_string_lookup[OF ok] extract_int_lookup[OF ok])
      (simp_all add: fragment_members_def frag_keys_def int)
qed

theorem fragment_scan_witness:
  "extract_string (fragment_to_json \<lparr>frag_id = ''m-0'', message_id = ''m'', chat_id = ''c'', sender_hash = ''s'',
      payload = ''QUI='', timestamp = 1700000000, ttl = -1\<rparr>) ''payload'' = ''QUI=''"
  using fragment_scan[of "\<lparr>frag_id = ''m-0'', message_id = ''m'', chat_id = ''c'', sender_hash = ''s'',
      payload = ''QUI='', timestamp = 1700000000, ttl = -1\<rparr>" 0]
  by (simp add: frag_scannable_def scannable_def json_plain_def frag_keys_def int64_range_def
    LLONG_MIN_def LLONG_MAX_def)

text \<open>
  C37. A value that equals the name of a later member is taken for that member: the reader then
  returns the value of the member after it, here the text \<open>v\<close> of \<open>k2\<close> instead of \<open>w\<close>.
\<close>

theorem value_shadows_key:
  assumes "k \<in> frag_keys" "k \<noteq> ''id''" "CHR '':'' \<notin> set k2" "json_plain v"
  shows "extract_string (object_text [(''id'', Js_string k), (k2, Js_string v), (k, Js_string w)]) k = v"
proof -
  let ?w = "''{'' @ dq_pieces [''id'', '':''] @ quoted k"
  let ?t = "DQ # json_escape v @ DQ # '','' @ member_text (k, Js_string w) @ ''}''"
  let ?s = "?w @ '','' @ quoted k2 @ '':'' @ ?t"
  have esc: "json_escape k = k" using assms(1) by (auto simp: frag_keys_def json_escape_char_def)
  have s: "object_text [(''id'', Js_string k), (k2, Js_string v), (k, Js_string w)] = ?s"
    by (simp add: object_text_def member_text_def quoted_def esc)
  have "'':'' \<noteq> k" "DQ \<notin> set k" using assms(1) by (auto simp: frag_keys_def)
  then have "find_sub (quoted k) ?s = Some (1 + length (dq_pieces [''id'', '':'']))"
    using find_sub_skip[of DQ "''{''" "k @ [DQ]"] assms(2)
      find_quoted[of k "[''id'', '':'']" "'','' @ quoted k2 @ '':'' @ ?t"]
    by (simp add: quoted_def)
  moreover have "find_char ?s (CHR '':'') (length ?w) = Some (length ?w + length ('','' @ quoted k2))"
    using find_char_append[of "CHR '':''" "'','' @ quoted k2" ?w "length ?w" ?t] assms(3)
    by (simp add: quoted_def)
  ultimately have colon: "find_colon ?s k = Some (length (?w @ '','' @ quoted k2))"
    by (simp add: find_colon_def str_find_0 add.assoc)
  let ?u = "?w @ '','' @ quoted k2"
  have "find_char (?u @ CHR '':'' # ?t) DQ (length ?u + 1) = Some (length ?u + 1)"
    using find_char_append[of DQ "[]" "?u @ '':''" "length ?u + 1"] by simp
  then show ?thesis
    using colon read_string_escape[OF assms(4)]
      substr_from_skip[of ?u "CHR '':''" DQ "json_escape v @ DQ # '','' @ member_text (k, Js_string w) @ ''}''"]
    unfolding s by (simp add: extract_string_def)
qed

theorem value_shadows_key_witness:
  "extract_string (object_text [(''id'', Js_string ''payload''), (''chat_id'', Js_string ''c''),
     (''payload'', Js_string ''secret'')]) ''payload'' = ''c''"
  by (rule value_shadows_key) (simp_all add: frag_keys_def json_plain_def)

end
