(* ===== verification/Json_Std.thy ===== *)
theory Json_Std
  imports Json "HOL-Library.Monad_Syntax"
begin

text \<open>
  What a client makes of the server's JSON: a reader for the grammar of RFC 8259 that is written from
  the RFC and independent of the server's own reader, for texts in bytes (\<open>Utf8\<close> adds the
  encoding) and numbers without fraction and exponent.  A reader returns the value and the rest of the text.
  The server's writers are shown to produce texts that it reads back exactly, for all data, control
  characters included.
\<close>

section \<open>Values\<close>

datatype json =
    J_string string
  | J_int int
  | J_bool bool
  | J_null
  | J_array "json list"
  | J_object "(string \<times> json) list"

section \<open>Reading\<close>

definition skip_ws :: "string \<Rightarrow> string" where
  "skip_ws s = dropWhile is_ws s"

definition expect :: "char \<Rightarrow> string \<Rightarrow> string option" where
  "expect c s = (case skip_ws s of [] \<Rightarrow> None | d # r \<Rightarrow> if d = c then Some r else None)"

text \<open>An escape sequence after its backslash; a numeric escape beyond ASCII is not a single byte.\<close>

definition hex4 :: "string \<Rightarrow> nat option" where
  "hex4 ds = (if length ds = 4 \<and> (\<forall>d \<in> set ds. is_hex d)
     then Some (foldl (\<lambda>a d. 16 * a + the (hex_val d)) 0 ds) else None)"

definition js_escape :: "string \<Rightarrow> (char \<times> string) option" where
  "js_escape s = (case s of
      [] \<Rightarrow> None
    | e # r \<Rightarrow>
        if e \<in> {DQ, BS, CHR ''/''} then Some (e, r)
        else if e = CHR ''b'' then Some (CHR 0x08, r)
        else if e = CHR ''f'' then Some (FF, r)
        else if e = CHR ''n'' then Some (LF, r)
        else if e = CHR ''r'' then Some (CR, r)
        else if e = CHR ''t'' then Some (HT, r)
        else if e = CHR ''u'' then
          (case hex4 (take 4 r) of
             None \<Rightarrow> None
           | Some n \<Rightarrow> if n < 128 then Some (chr n, drop 4 r) else None)
        else None)"

lemma js_escape_shorter: "js_escape s = Some (c, r) \<Longrightarrow> length r < length s"
  by (cases s) (auto simp: js_escape_def split: if_splits option.splits)

text \<open>The characters of a string up to the closing quote; control characters must be escaped.\<close>

function js_chars :: "string \<Rightarrow> (string \<times> string) option" where
  "js_chars s = (case s of
      [] \<Rightarrow> None
    | c # r \<Rightarrow>
        if c = DQ then Some ([], r)
        else if c = BS then
          (case js_escape r of
             None \<Rightarrow> None
           | Some (d, r') \<Rightarrow> map_option (\<lambda>(v, t). (d # v, t)) (js_chars r'))
        else if byte c < 32 then None
        else map_option (\<lambda>(v, t). (c # v, t)) (js_chars r))"
  by pat_completeness auto
termination
  by (relation "measure length") (auto dest: js_escape_shorter)

declare js_chars.simps [simp del]

definition js_number :: "string \<Rightarrow> (json \<times> string) option" where
  "js_number s =
     (let neg = (s \<noteq> [] \<and> hd s = CHR ''-''); t = (if neg then tl s else s);
          ds = takeWhile isdigit t; r = dropWhile isdigit t
      in if ds = [] \<or> hd ds = CHR ''0'' \<and> tl ds \<noteq> [] then None
         else Some (J_int (if neg then - int (digits_val ds) else int (digits_val ds)), r))"

definition js_word :: "string \<Rightarrow> json \<Rightarrow> string \<Rightarrow> (json \<times> string) option" where
  "js_word w v s = (if prefix w s then Some (v, drop (length w) s) else None)"

text \<open>Every nested call gets less fuel; the length of the text is always enough.\<close>

fun js_value :: "nat \<Rightarrow> string \<Rightarrow> (json \<times> string) option"
  and js_members :: "nat \<Rightarrow> string \<Rightarrow> ((string \<times> json) list \<times> string) option"
  and js_elements :: "nat \<Rightarrow> string \<Rightarrow> (json list \<times> string) option" where
  "js_value 0 s = None"
| "js_value (Suc n) s = (case skip_ws s of
      [] \<Rightarrow> None
    | c # r \<Rightarrow>
        if c = DQ then do { (v, r1) \<leftarrow> js_chars r; Some (J_string v, r1) }
        else if c = CHR ''{'' then
          (case expect (CHR ''}'') r of
             Some r1 \<Rightarrow> Some (J_object [], r1)
           | None \<Rightarrow> do { (ms, r1) \<leftarrow> js_members n r; Some (J_object ms, r1) })
        else if c = CHR ''['' then
          (case expect (CHR '']'') r of
             Some r1 \<Rightarrow> Some (J_array [], r1)
           | None \<Rightarrow> do { (vs, r1) \<leftarrow> js_elements n r; Some (J_array vs, r1) })
        else if c = CHR ''t'' then js_word ''true'' (J_bool True) (c # r)
        else if c = CHR ''f'' then js_word ''false'' (J_bool False) (c # r)
        else if c = CHR ''n'' then js_word ''null'' J_null (c # r)
        else js_number (c # r))"
| "js_members 0 s = None"
| "js_members (Suc n) s = do {
     r \<leftarrow> expect DQ s;
     (k, r1) \<leftarrow> js_chars r;
     r2 \<leftarrow> expect (CHR '':'') r1;
     (v, r3) \<leftarrow> js_value n r2;
     (case expect (CHR '','') r3 of
        Some r4 \<Rightarrow> do { (ms, r5) \<leftarrow> js_members n r4; Some ((k, v) # ms, r5) }
      | None \<Rightarrow> do { r4 \<leftarrow> expect (CHR ''}'') r3; Some ([(k, v)], r4) }) }"
| "js_elements 0 s = None"
| "js_elements (Suc n) s = do {
     (v, r) \<leftarrow> js_value n s;
     (case expect (CHR '','') r of
        Some r1 \<Rightarrow> do { (vs, r2) \<leftarrow> js_elements n r1; Some (v # vs, r2) }
      | None \<Rightarrow> do { r1 \<leftarrow> expect (CHR '']'') r; Some ([v], r1) }) }"

definition parse_json :: "string \<Rightarrow> json option" where
  "parse_json s = do { (v, r) \<leftarrow> js_value (Suc (length s)) s; if skip_ws r = [] then Some v else None }"

section \<open>Writing\<close>

text \<open>The compact form, with the escapes of the server.\<close>

fun js_show :: "json \<Rightarrow> string"
  and show_members :: "(string \<times> json) list \<Rightarrow> string"
  and show_elements :: "json list \<Rightarrow> string" where
  "js_show (J_string s) = quoted (json_escape s)"
| "js_show (J_int i) = show_int i"
| "js_show (J_bool b) = (if b then ''true'' else ''false'')"
| "js_show J_null = ''null''"
| "js_show (J_array vs) = ''['' @ show_elements vs @ '']''"
| "js_show (J_object ms) = ''{'' @ show_members ms @ ''}''"
| "show_members [] = []"
| "show_members ((k, v) # ms) =
     quoted (json_escape k) @ '':'' @ js_show v @ (if ms = [] then [] else '','' @ show_members ms)"
| "show_elements [] = []"
| "show_elements (v # vs) = js_show v @ (if vs = [] then [] else '','' @ show_elements vs)"

section \<open>The round trip\<close>

lemma js_chars_simps:
  "js_chars [] = None" "js_chars (DQ # r) = Some ([], r)"
  "c \<noteq> DQ \<Longrightarrow> c \<noteq> BS \<Longrightarrow> 32 \<le> byte c \<Longrightarrow> js_chars (c # r) = map_option (\<lambda>(v, t). (c # v, t)) (js_chars r)"
  "js_escape r = Some (d, r') \<Longrightarrow> js_chars (BS # r) = map_option (\<lambda>(v, t). (d # v, t)) (js_chars r')"
  by (subst js_chars.simps; simp)+

lemma hex_char_val: "d < 16 \<Longrightarrow> hex_val (hex_char d) = Some d"
  by (auto simp: hex_val_def hex_char_def)

lemma hex4_pad: "n < 65536 \<Longrightarrow> hex4 (pad_hex 4 n) = Some n"
proof -
  assume n: "n < 65536"
  have lt: "n div 4096 < 16" using n by (simp add: less_mult_imp_div_less)
  have "16 * (n div 16) + n mod 16 = n" by simp
  moreover have "16 * (n div 256) + n div 16 mod 16 = n div 16"
    using div_mult2_eq[of n 16 16] by simp
  moreover have "16 * (n div 4096) + n div 256 mod 16 = n div 256"
    using div_mult2_eq[of n 256 16] by simp
  ultimately have "16 * (16 * (16 * (n div 4096) + n div 256 mod 16) + n div 16 mod 16) + n mod 16 = n"
    by (simp only:)
  then show ?thesis
    using lt by (simp add: hex4_def pad_hex_4[OF n] is_hex_def hex_char_val)
qed

lemma js_chars_escape_char:
  "js_chars (json_escape_char c @ r) = map_option (\<lambda>(v, t). (c # v, t)) (js_chars r)"
proof (cases "byte c < 32 \<and> c \<notin> {LF, CR, HT}")
  case True
  have "length (pad_hex 4 (byte c)) = 4" using True by (intro length_pad_hex) auto
  then have "js_escape (CHR ''u'' # pad_hex 4 (byte c) @ r) = Some (c, r)"
    using True hex4_pad[of "byte c"] by (simp add: js_escape_def)
  moreover have "json_escape_char c = BS # CHR ''u'' # pad_hex 4 (byte c)"
    using True by (auto simp: json_escape_char_def)
  ultimately show ?thesis by (simp add: js_chars_simps)
next
  case False
  then show ?thesis
    by (auto simp: json_escape_char_def js_chars_simps js_escape_def)
qed

lemma js_chars_escape: "js_chars (json_escape s @ DQ # r) = Some (s, r)"
  by (induction s) (simp_all add: js_chars_simps js_chars_escape_char)


text \<open>The text of a value does not start with white space or a closing bracket.\<close>

lemma skip_ws_Cons: "\<not> is_ws c \<Longrightarrow> skip_ws (c # r) = c # r"
  by (simp add: skip_ws_def)

lemma expect_Cons: "\<not> is_ws d \<Longrightarrow> expect c (d # r) = (if d = c then Some r else None)"
  by (simp add: expect_def skip_ws_Cons)

lemma show_nat_leading: "0 < n \<Longrightarrow> hd (show_nat n) \<noteq> CHR ''0''"
proof (induction n rule: show_nat.induct)
  case (1 n)
  show ?case
  proof (cases "n < 10")
    case True
    then show ?thesis using "1.prems" by (subst show_nat.simps) (simp add: digit_char_def chr_eq_iff)
  next
    case False
    then have "hd (show_nat (n div 10)) \<noteq> CHR ''0''" using "1.IH" by simp
    then show ?thesis using False by (subst show_nat.simps) simp
  qed
qed

lemma show_nat_plain: "hd (show_nat n) \<noteq> CHR ''0'' \<or> tl (show_nat n) = []"
proof (cases "n = 0")
  case True
  then show ?thesis by (subst (2) show_nat.simps) simp
next
  case False
  then show ?thesis using show_nat_leading[of n] by simp
qed

lemma js_number_show:
  assumes "r = [] \<or> \<not> isdigit (hd r)"
  shows "js_number (show_int i @ r) = Some (J_int i, r)"
proof -
  have tw: "takeWhile isdigit (show_nat n @ r) = show_nat n" "dropWhile isdigit (show_nat n @ r) = r" for n
    using takeWhile_append_stop[OF show_nat_digits assms] by simp_all
  have hd: "hd (show_nat n @ r) \<noteq> CHR ''-''" for n
  proof -
    obtain c cs where "show_nat n = c # cs" by (cases "show_nat n") auto
    then show ?thesis using show_nat_digits[of n] isdigit_not_sign[of c] by simp
  qed
  have lead: "\<not> (hd (show_nat n) = CHR ''0'' \<and> tl (show_nat n) \<noteq> [])" for n
    using show_nat_plain[of n] by blast
  have pos: "js_number (show_nat n @ r) = Some (J_int (int n), r)" for n
    unfolding js_number_def Let_def using hd[of n] lead[of n] by (simp add: tw)
  have neg: "js_number (CHR ''-'' # show_nat n @ r) = Some (J_int (- int n), r)" for n
    unfolding js_number_def Let_def using lead[of n] by (simp add: tw)
  show ?thesis by (simp add: show_int_def pos neg)
qed

definition value_start :: "char \<Rightarrow> bool" where
  "value_start c \<longleftrightarrow> c \<in> set ''tfn-{['' \<or> c = DQ \<or> isdigit c"

lemma value_start_props:
  "value_start c \<Longrightarrow> \<not> is_ws c \<and> c \<noteq> CHR ''}'' \<and> c \<noteq> CHR '']''"
  by (auto simp: value_start_def is_ws_def isdigit_def)

lemma js_show_start: "\<exists>c t. js_show v = c # t \<and> value_start c"
proof (cases v)
  case (J_int i)
  then show ?thesis using show_int_hd[of i] by (auto simp: value_start_def)
qed (auto simp: quoted_def value_start_def)

definition ends_number :: "string \<Rightarrow> bool" where
  "ends_number r \<longleftrightarrow> r = [] \<or> \<not> isdigit (hd r)"

lemma ends_number_Cons [simp]: "ends_number (c # r) \<longleftrightarrow> \<not> isdigit c" "ends_number []"
  by (simp_all add: ends_number_def)

lemma js_value_int:
  assumes "ends_number r"
  shows "js_value (Suc n) (show_int i @ r) = Some (J_int i, r)"
proof -
  obtain c t where s: "show_int i = c # t" "c = CHR ''-'' \<or> isdigit c" using show_int_hd by blast
  have "\<not> is_ws c" "c \<noteq> DQ" "c \<notin> set ''{[tfn''" using s(2) by (auto simp: is_ws_def isdigit_def)
  then have "js_value (Suc n) (show_int i @ r) = js_number (show_int i @ r)"
    by (simp add: s(1) skip_ws_Cons)
  then show ?thesis using js_number_show assms by (simp add: ends_number_def)
qed

lemma members_start: "ms \<noteq> [] \<Longrightarrow> \<exists>t. show_members ms = DQ # t"
  by (cases ms rule: show_members.cases) (auto simp: quoted_def)

lemma elements_start: "vs \<noteq> [] \<Longrightarrow> \<exists>c t. show_elements vs = c # t \<and> value_start c"
  using js_show_start by (cases vs) fastforce+

text \<open>What each reader does with fuel \<open>n\<close>: it reads back every text that is shorter.\<close>

definition reads_values :: "nat \<Rightarrow> bool" where
  "reads_values n \<longleftrightarrow> (\<forall>v r. length (js_show v) < n \<longrightarrow> ends_number r \<longrightarrow>
     js_value n (js_show v @ r) = Some (v, r))"

definition reads_members :: "nat \<Rightarrow> bool" where
  "reads_members n \<longleftrightarrow> (\<forall>ms r. ms \<noteq> [] \<longrightarrow> length (show_members ms) < n \<longrightarrow>
     js_members n (show_members ms @ CHR ''}'' # r) = Some (ms, r))"

definition reads_elements :: "nat \<Rightarrow> bool" where
  "reads_elements n \<longleftrightarrow> (\<forall>vs r. vs \<noteq> [] \<longrightarrow> Suc (length (show_elements vs)) < n \<longrightarrow>
     js_elements n (show_elements vs @ CHR '']'' # r) = Some (vs, r))"

lemmas reads_defs = reads_values_def reads_members_def reads_elements_def

lemma js_marks:
  "\<not> is_ws (CHR ''{'')" "\<not> is_ws (CHR ''}'')" "\<not> is_ws (CHR ''['')" "\<not> is_ws (CHR '']'')"
  "\<not> is_ws DQ" "\<not> is_ws (CHR '':'')" "\<not> is_ws (CHR '','')" "\<not> is_ws (CHR ''t'')" "\<not> is_ws (CHR ''f'')"
  "\<not> is_ws (CHR ''n'')" "\<not> isdigit (CHR ''}'')" "\<not> isdigit (CHR '']'')" "\<not> isdigit (CHR '','')"
  by (simp_all add: is_ws_def isdigit_def)

lemmas js_read = skip_ws_Cons expect_Cons js_marks js_chars_escape quoted_def

lemma reads_values_step:
  assumes "reads_members n" "reads_elements n"
  shows "reads_values (Suc n)"
  unfolding reads_values_def
proof (intro allI impI)
  fix v r assume len: "length (js_show v) < Suc n" and r: "ends_number r"
  show "js_value (Suc n) (js_show v @ r) = Some (v, r)"
  proof (cases v)
    case (J_object ms)
    show ?thesis
    proof (cases "ms = []")
      case False
      then obtain t where "show_members ms = DQ # t" using members_start by blast
      moreover have "js_members n (show_members ms @ CHR ''}'' # r) = Some (ms, r)"
        using assms(1) len J_object False by (simp add: reads_members_def)
      ultimately show ?thesis using J_object by (simp add: js_read)
    qed (use J_object in \<open>simp add: js_read\<close>)
  next
    case (J_array vs)
    show ?thesis
    proof (cases "vs = []")
      case False
      then obtain c t where t: "show_elements vs = c # t" "value_start c" using elements_start by blast
      have "js_elements n (show_elements vs @ CHR '']'' # r) = Some (vs, r)"
        using assms(2) len J_array False by (simp add: reads_elements_def)
      then show ?thesis using J_array t value_start_props[OF t(2)] by (simp add: js_read)
    qed (use J_array in \<open>simp add: js_read\<close>)
  next
    case (J_int i)
    then show ?thesis using js_value_int[OF r] by simp
  qed (simp_all add: js_read js_word_def)
qed

lemma reads_members_step:
  assumes "reads_values n" "reads_members n"
  shows "reads_members (Suc n)"
  unfolding reads_members_def
proof (intro allI impI)
  fix ms :: "(string \<times> json) list" and r
  assume "ms \<noteq> []" and len: "length (show_members ms) < Suc n"
  then obtain k v ms' where ms: "ms = (k, v) # ms'" by (cases ms) auto
  have val: "js_value n (js_show v @ c # t) = Some (v, c # t)" if "\<not> isdigit c" for c t
    using assms(1) len ms that by (simp add: reads_values_def)
  show "js_members (Suc n) (show_members ms @ CHR ''}'' # r) = Some (ms, r)"
  proof (cases "ms' = []")
    case False
    then have "js_members n (show_members ms' @ CHR ''}'' # r) = Some (ms', r)"
      using assms(2) len ms by (simp add: reads_members_def)
    then show ?thesis using ms False val by (simp add: js_read)
  qed (use ms val in \<open>simp add: js_read\<close>)
qed

lemma reads_elements_step:
  assumes "reads_values n" "reads_elements n"
  shows "reads_elements (Suc n)"
  unfolding reads_elements_def
proof (intro allI impI)
  fix vs r assume "vs \<noteq> []" and len: "Suc (length (show_elements vs)) < Suc n"
  then obtain v vs' where vs: "vs = v # vs'" by (cases vs) auto
  have val: "js_value n (js_show v @ c # t) = Some (v, c # t)" if "\<not> isdigit c" for c t
    using assms(1) len vs that by (simp add: reads_values_def)
  show "js_elements (Suc n) (show_elements vs @ CHR '']'' # r) = Some (vs, r)"
  proof (cases "vs' = []")
    case False
    then have "js_elements n (show_elements vs' @ CHR '']'' # r) = Some (vs', r)"
      using assms(2) len vs js_show_start[of v] by (auto simp: reads_elements_def)
    then show ?thesis using vs False val by (simp add: js_read)
  qed (use vs val in \<open>simp add: js_read\<close>)
qed

lemma read_back: "reads_values n \<and> reads_members n \<and> reads_elements n"
proof (induction n)
  case 0
  then show ?case by (simp add: reads_defs)
next
  case (Suc n)
  then show ?case using reads_values_step reads_members_step reads_elements_step by blast
qed

lemma reads_valuesD:
  "reads_values n \<Longrightarrow> length (js_show v) < n \<Longrightarrow> ends_number r \<Longrightarrow> js_value n (js_show v @ r) = Some (v, r)"
  unfolding reads_values_def by blast

lemma parse_json_show: "parse_json (js_show v) = Some v"
proof -
  have "js_value (Suc (length (js_show v))) (js_show v @ []) = Some (v, [])"
    by (rule reads_valuesD) (simp_all add: read_back)
  then show ?thesis by (simp add: parse_json_def skip_ws_def del: js_value.simps)
qed

interpretation standard: codec "\<lambda>_. True" js_show "\<lambda>s. the (parse_json s)"
  by unfold_locales (simp add: parse_json_show)

section \<open>What the server writes\<close>

definition fragment_json :: "fragment \<Rightarrow> json" where
  "fragment_json f = J_object
     [(''id'', J_string (frag_id f)), (''message_id'', J_string (message_id f)),
      (''chat_id'', J_string (chat_id f)), (''sender_hash'', J_string (sender_hash f)),
      (''payload'', J_string (payload f)), (''timestamp'', J_int (timestamp f)), (''ttl'', J_int (ttl f))]"

lemma fragment_to_json_show: "fragment_to_json f = js_show (fragment_json f)"
  by (simp add: fragment_to_json_def fragment_json_def json_escape_char_def)

lemma comma_rest_show:
  "fragment_to_json f @ comma_rest fs = show_elements (map fragment_json (f # fs))"
  by (induction fs arbitrary: f) (simp_all add: fragment_to_json_show)

lemma fragments_array_show: "fragments_array fs = js_show (J_array (map fragment_json fs))"
  using comma_rest_show by (cases fs) (simp_all add: fragments_array_def)

end
