(* ===== verification/Utf8.thy ===== *)
theory Utf8
  imports Json_Std
begin

text \<open>
  RFC 8259, section 8.1, demands of JSON that is exchanged between systems that it is UTF-8.  The server
  copies the bytes of a fragment's texts; its answer is JSON exactly when these texts are UTF-8.
\<close>

section \<open>UTF-8 by RFC 3629\<close>

definition cont :: "char \<Rightarrow> bool" where
  "cont b \<longleftrightarrow> 128 \<le> byte b \<and> byte b < 192"

text \<open>The second byte of a sequence excludes overlong forms, surrogates and values beyond U+10FFFF.\<close>

definition second :: "char \<Rightarrow> char \<Rightarrow> bool" where
  "second a b \<longleftrightarrow> cont b \<and> (byte a = 224 \<longrightarrow> 160 \<le> byte b) \<and> (byte a = 237 \<longrightarrow> byte b < 160)
     \<and> (byte a = 240 \<longrightarrow> 144 \<le> byte b) \<and> (byte a = 244 \<longrightarrow> byte b < 144)"

text \<open>Between characters, after the first byte of a sequence, or before its last bytes.\<close>

datatype utf8_state = Between | After char nat | Last nat

definition rest_of :: "nat \<Rightarrow> utf8_state" where
  "rest_of n = (if n = 0 then Between else Last n)"

fun utf8_next :: "utf8_state \<Rightarrow> char \<Rightarrow> utf8_state option" where
  "utf8_next Between c =
     (if byte c < 128 then Some Between
      else if byte c < 194 then None
      else if byte c < 224 then Some (After c 0)
      else if byte c < 240 then Some (After c 1)
      else if byte c < 245 then Some (After c 2)
      else None)"
| "utf8_next (After a n) b = (if second a b then Some (rest_of n) else None)"
| "utf8_next (Last n) c = (if cont c then Some (rest_of (n - 1)) else None)"

fun utf8_from :: "utf8_state \<Rightarrow> string \<Rightarrow> bool" where
  "utf8_from st [] = (st = Between)"
| "utf8_from st (c # s) = (case utf8_next st c of None \<Rightarrow> False | Some st' \<Rightarrow> utf8_from st' s)"

abbreviation utf8 :: "string \<Rightarrow> bool" where
  "utf8 \<equiv> utf8_from Between"

lemma not_cont_ascii [simp]: "byte c < 128 \<Longrightarrow> \<not> cont c" "byte c < 128 \<Longrightarrow> \<not> second a c"
  by (simp_all add: cont_def second_def)

lemma utf8_next_ascii: "byte c < 128 \<Longrightarrow> utf8_next st c = (if st = Between then Some Between else None)"
  by (cases st) simp_all

lemma utf8_sep: "byte c < 128 \<Longrightarrow> utf8_from st (xs @ c # ys) \<longleftrightarrow> utf8_from st xs \<and> utf8 ys"
  by (induction xs arbitrary: st) (simp_all add: utf8_next_ascii split: option.split)

lemma utf8_ascii: "\<forall>c \<in> set xs. byte c < 128 \<Longrightarrow> utf8 (xs @ ys) = utf8 ys"
  by (induction xs) simp_all

lemma utf8_ascii_all: "\<forall>c \<in> set xs. byte c < 128 \<Longrightarrow> utf8 xs"
  using utf8_ascii[of xs "[]"] by simp

section \<open>What the server's writers keep\<close>

lemma escape_high: "128 \<le> byte c \<Longrightarrow> json_escape_char c = [c]"
  by (auto simp: json_escape_char_def)

lemma escape_ascii: "byte c < 128 \<Longrightarrow> \<forall>d \<in> set (json_escape_char c). byte d < 128"
  using pad_hex_lower[of 4 "byte c"] by (auto simp: json_escape_char_def is_lower_hex_def isdigit_def)

lemma escape_nonempty: "json_escape_char c \<noteq> []"
  by (simp add: json_escape_char_def)

lemma utf8_escape: "utf8_from st (json_escape s) \<longleftrightarrow> utf8_from st s"
proof (induction s arbitrary: st)
  case (Cons c s)
  show ?case
  proof (cases "byte c < 128")
    case True
    obtain d ds where d: "json_escape_char c = d # ds" "byte d < 128" "\<forall>e \<in> set ds. byte e < 128"
      using escape_ascii[OF True] escape_nonempty[of c] by (cases "json_escape_char c") auto
    show ?thesis using Cons True d by (simp add: utf8_next_ascii utf8_ascii)
  next
    case False
    then show ?thesis using Cons by (simp add: escape_high split: option.split)
  qed
qed simp

text \<open>Every string in a value is UTF-8.\<close>

fun json_utf8 :: "json \<Rightarrow> bool"
  and members_utf8 :: "(string \<times> json) list \<Rightarrow> bool"
  and elements_utf8 :: "json list \<Rightarrow> bool" where
  "json_utf8 (J_string s) = utf8 s"
| "json_utf8 (J_int i) = True"
| "json_utf8 (J_bool b) = True"
| "json_utf8 J_null = True"
| "json_utf8 (J_array vs) = elements_utf8 vs"
| "json_utf8 (J_object ms) = members_utf8 ms"
| "members_utf8 [] = True"
| "members_utf8 ((k, v) # ms) = (utf8 k \<and> json_utf8 v \<and> members_utf8 ms)"
| "elements_utf8 [] = True"
| "elements_utf8 (v # vs) = (json_utf8 v \<and> elements_utf8 vs)"

lemma show_nat_ascii: "\<forall>c \<in> set (show_nat n). byte c < 128"
  using show_nat_digits[of n] by (auto simp: isdigit_def)

lemma utf8_show_int: "utf8 (show_int i)"
  using show_nat_ascii by (intro utf8_ascii_all) (auto simp: show_int_def)

lemma ascii_marks: "byte DQ < 128" "byte (CHR '':'') < 128" "byte (CHR '','') < 128" "byte (CHR ''['') < 128"
  "byte (CHR '']'') < 128" "byte (CHR ''{'') < 128" "byte (CHR ''}'') < 128"
  by (simp_all add: byte_def)

lemma utf8_mark: "byte c < 128 \<Longrightarrow> utf8 (c # ys) = utf8 ys"
  by simp

lemma utf8_quoted: "utf8 (quoted s @ c # ys) \<longleftrightarrow> utf8 s \<and> utf8 (c # ys)" "utf8 (quoted s) \<longleftrightarrow> utf8 s"
  using utf8_sep[OF ascii_marks(1), of Between s "c # ys"] utf8_sep[OF ascii_marks(1), of Between s "[]"]
  by (simp_all add: quoted_def ascii_marks del: utf8_from.simps(2) add: utf8_mark)

lemma utf8_show:
  "utf8 (js_show v) \<longleftrightarrow> json_utf8 v"
  "utf8 (show_members ms) \<longleftrightarrow> members_utf8 ms"
  "utf8 (show_elements vs) \<longleftrightarrow> elements_utf8 vs"
proof (induction v and ms and vs rule: js_show_show_members_show_elements.induct)
  case (8 k v ms)
  then show ?case
    by (auto simp: utf8_quoted utf8_mark ascii_marks utf8_sep utf8_escape simp del: utf8_from.simps(2))
next
  case (10 v vs)
  then show ?case by (auto simp: utf8_mark ascii_marks utf8_sep simp del: utf8_from.simps(2))
qed (simp_all add: utf8_quoted utf8_escape utf8_show_int utf8_mark ascii_marks utf8_sep utf8_ascii_all byte_def
    del: utf8_from.simps(2))

section \<open>The answer to a poll\<close>

definition fragment_utf8 :: "fragment \<Rightarrow> bool" where
  "fragment_utf8 f \<longleftrightarrow> utf8 (frag_id f) \<and> utf8 (message_id f) \<and> utf8 (chat_id f) \<and> utf8 (sender_hash f) \<and> utf8 (payload f)"

lemma fragment_json_utf8: "json_utf8 (fragment_json f) \<longleftrightarrow> fragment_utf8 f"
  by (simp add: fragment_json_def fragment_utf8_def byte_def)

text \<open>A reader for JSON text, with its encoding.\<close>

definition read_json_text :: "string \<Rightarrow> json option" where
  "read_json_text s = (if utf8 s then parse_json s else None)"

text \<open>
  C23. What the server answers to a poll is JSON, and a client that reads it by the standard gets exactly the
  fragments, in their order, whatever control characters, quotes or backslashes their texts hold, when these
  texts are UTF-8; when one of them is not, the answer is not JSON.
\<close>

theorem poll_body_is_json:
  "read_json_text (fragments_array fs)
    = (if list_all fragment_utf8 fs then Some (J_array (map fragment_json fs)) else None)"
proof -
  have "elements_utf8 (map fragment_json fs) \<longleftrightarrow> list_all fragment_utf8 fs"
    by (induction fs) (simp_all add: fragment_json_utf8)
  then show ?thesis unfolding read_json_text_def fragments_array_show utf8_show(1) parse_json_show by simp
qed

end
