(* ===== verification/Http.thy ===== *)
theory Http
  imports Utils
begin

text \<open>
  The HTTP layer of \<open>backend/src/server.hpp\<close> and \<open>server.cpp\<close>: requests, responses and their
  factory functions, the response builder, route patterns, query strings, and the reading and
  parsing of a request.  A socket is the list of the byte blocks that successive calls of \<open>recv\<close>
  return, each at most 8192 bytes; the end of the list, or an empty block, stands for the call
  that returns 0 or fails (end of stream, time-out).  \<open>std::unordered_map\<close> is a partial map.
\<close>

section \<open>Requests and responses\<close>

type_synonym str_map = "string \<rightharpoonup> string"

record http_request =
  req_method :: string
  req_path :: string
  req_headers :: str_map
  req_query :: str_map
  req_params :: str_map
  req_body :: string

definition empty_request :: http_request where
  "empty_request = \<lparr>req_method = [], req_path = [], req_headers = Map.empty, req_query = Map.empty,
     req_params = Map.empty, req_body = []\<rparr>"

record http_response =
  status_code :: int
  status_text :: string
  content_type :: string
  resp_body :: string

definition json_response :: "int \<Rightarrow> string \<Rightarrow> string \<Rightarrow> http_response" where
  "json_response code txt b =
     \<lparr>status_code = code, status_text = txt, content_type = ''application/json'', resp_body = b\<rparr>"

definition error_body :: "string \<Rightarrow> string" where
  "error_body msg = ''{'' @ [DQ] @ ''error'' @ [DQ] @ '':'' @ [DQ] @ msg @ [DQ] @ ''}''"

definition resp_ok :: "string \<Rightarrow> http_response" where
  "resp_ok b = json_response 200 ''OK'' b"
definition resp_created :: "string \<Rightarrow> http_response" where
  "resp_created b = json_response 201 ''Created'' b"
definition resp_no_content :: http_response where
  "resp_no_content = json_response 204 ''No Content'' []"
definition resp_bad_request :: "string \<Rightarrow> http_response" where
  "resp_bad_request msg = json_response 400 ''Bad Request'' (error_body msg)"
definition resp_unauthorized :: http_response where
  "resp_unauthorized = json_response 401 ''Unauthorized'' (error_body ''unauthorized'')"
definition resp_not_found :: http_response where
  "resp_not_found = json_response 404 ''Not Found'' (error_body ''not found'')"
definition resp_method_not_allowed :: http_response where
  "resp_method_not_allowed = json_response 405 ''Method Not Allowed'' (error_body ''method not allowed'')"
definition resp_payload_too_large :: http_response where
  "resp_payload_too_large = json_response 413 ''Payload Too Large'' (error_body ''payload too large'')"
definition resp_too_many_requests :: http_response where
  "resp_too_many_requests = json_response 429 ''Too Many Requests'' (error_body ''too many requests'')"
definition resp_server_error :: "string \<Rightarrow> http_response" where
  "resp_server_error msg = json_response 500 ''Internal Server Error'' (error_body msg)"

lemmas response_defs = resp_ok_def resp_created_def resp_no_content_def resp_bad_request_def
  resp_unauthorized_def resp_not_found_def resp_method_not_allowed_def resp_payload_too_large_def
  resp_too_many_requests_def resp_server_error_def json_response_def

definition response_head :: "string \<Rightarrow> http_response \<Rightarrow> string" where
  "response_head cors resp =
     ''HTTP/1.1 '' @ show_int (status_code resp) @ '' ''
       @ (if status_text resp = [] then ''OK'' else status_text resp) @ CRLF
     @ ''Content-Type: '' @ content_type resp @ ''; charset=utf-8'' @ CRLF
     @ ''Content-Length: '' @ show_nat (length (resp_body resp)) @ CRLF
     @ ''Connection: close'' @ CRLF
     @ ''Access-Control-Allow-Origin: '' @ cors @ CRLF
     @ ''Access-Control-Allow-Methods: GET, POST, DELETE, OPTIONS'' @ CRLF
     @ ''Access-Control-Allow-Headers: Content-Type, Authorization'' @ CRLF
     @ CRLF"

definition build_response :: "string \<Rightarrow> http_response \<Rightarrow> string" where
  "build_response cors resp = response_head cors resp @ resp_body resp"

section \<open>Patterns and query strings\<close>

text \<open>The loop over the segments of a pattern and of a path, which have equally many.\<close>

fun match_segments :: "string list \<Rightarrow> string list \<Rightarrow> str_map \<Rightarrow> str_map option" where
  "match_segments (p # ps) (c # cs) params =
     (if p \<noteq> [] \<and> hd p = CHR '':'' then match_segments ps cs (params(tl p \<mapsto> c))
      else if p \<noteq> c then None
      else match_segments ps cs params)"
| "match_segments _ _ params = Some params"

definition match_pattern :: "string \<Rightarrow> string \<Rightarrow> str_map option" where
  "match_pattern pattern path =
     (let pp = split pattern (CHR ''/''); cp = split path (CHR ''/'')
      in if length pp \<noteq> length cp then None else match_segments pp cp Map.empty)"

fun add_query_pairs :: "string list \<Rightarrow> str_map \<Rightarrow> str_map" where
  "add_query_pairs [] result = result"
| "add_query_pairs (pair # pairs) result =
     add_query_pairs pairs
       (case find_char pair (CHR ''='') 0 of
          None \<Rightarrow> result(url_decode pair \<mapsto> [])
        | Some eq \<Rightarrow> result(url_decode (substr pair 0 eq) \<mapsto> url_decode (substr_from pair (eq + 1))))"

definition parse_query :: "string \<Rightarrow> str_map" where
  "parse_query qs = add_query_pairs (split qs (CHR ''&'')) Map.empty"

section \<open>Reading a request\<close>

definition MAX_REQUEST_BYTES :: nat where "MAX_REQUEST_BYTES = 2 * 1024 * 1024"

definition RECV_BUF :: nat where "RECV_BUF = 8192"

definition header_end_mark :: string where "header_end_mark = CRLF @ CRLF"

text \<open>The value of the \<open>Content-Length\<close> header in the header section, 0 without a valid one.\<close>

definition content_length_of :: "string \<Rightarrow> nat" where
  "content_length_of hdrs =
     (let hdr_section = to_lower hdrs
      in case str_find hdr_section (CRLF @ ''content-length:'') 0 of
           None \<Rightarrow> 0
         | Some cl_pos \<Rightarrow>
             let val_start = cl_pos + 17;
                 cl_str = trim (case str_find hdr_section CRLF val_start of
                     None \<Rightarrow> substr_from hdr_section val_start
                   | Some val_end \<Rightarrow> substr hdr_section val_start (val_end - val_start))
             in case stoull cl_str of Inl _ \<Rightarrow> 0 | Inr n \<Rightarrow> n)"

text \<open>The end of the headers and the content length, once the blank line has arrived.\<close>

definition scan_headers :: "string \<Rightarrow> (nat \<times> nat) option" where
  "scan_headers raw = (case str_find raw header_end_mark 0 of
      None \<Rightarrow> None
    | Some pos \<Rightarrow> Some (pos + 4, content_length_of (substr raw 0 (pos + 4))))"

record recv_state =
  raw :: string
  headers_done :: bool
  content_length :: nat
  headers_end :: nat

definition recv_start :: recv_state where
  "recv_start = \<lparr>raw = [], headers_done = False, content_length = 0, headers_end = 0\<rparr>"

definition recv_block :: "recv_state \<Rightarrow> string \<Rightarrow> recv_state" where
  "recv_block st buf =
     (let st' = st\<lparr>raw := raw st @ buf\<rparr>
      in if headers_done st' then st'
         else case scan_headers (raw st') of
             None \<Rightarrow> st'
           | Some (he, cl) \<Rightarrow> st'\<lparr>headers_done := True, headers_end := he, content_length := cl\<rparr>)"

definition recv_complete :: "recv_state \<Rightarrow> bool" where
  "recv_complete st \<longleftrightarrow> headers_done st
     \<and> size_add (headers_end st) (content_length st) \<le> length (raw st)"

fun recv_loop :: "recv_state \<Rightarrow> string list \<Rightarrow> recv_state" where
  "recv_loop st [] = st"
| "recv_loop st (buf # bufs) =
     (if length (raw st) < MAX_REQUEST_BYTES \<and> buf \<noteq> []
      then let st' = recv_block st buf in if recv_complete st' then st' else recv_loop st' bufs
      else st)"

section \<open>Parsing a request\<close>

text \<open>One header line; without a colon it is skipped, and a repeated key keeps the last value.\<close>

definition add_header :: "str_map \<Rightarrow> string \<Rightarrow> str_map" where
  "add_header hs header = (case find_char header (CHR '':'') 0 of
      None \<Rightarrow> hs
    | Some colon \<Rightarrow>
        hs(to_lower (trim (substr header 0 colon)) \<mapsto> trim (substr_from header (colon + 1))))"

function parse_headers :: "string \<Rightarrow> nat \<Rightarrow> str_map \<Rightarrow> str_map" where
  "parse_headers rw pos hs =
     (if pos < length rw then
        (case str_find rw CRLF pos of
           None \<Rightarrow> hs
         | Some en \<Rightarrow>
             if en = pos then hs
             else
               parse_headers rw (en + 2) (add_header hs (substr rw pos (en - pos))))
      else hs)"
  by pat_completeness auto
termination
  by (relation "measure (\<lambda>(rw, pos, hs). length rw - pos)") (auto dest: str_find_bound)

declare parse_headers.simps [simp del]

text \<open>The target of the request line, split at its first question mark.\<close>

definition set_target :: "string \<Rightarrow> http_request \<Rightarrow> http_request" where
  "set_target raw_path req = (case find_char raw_path (CHR ''?'') 0 of
      None \<Rightarrow> req\<lparr>req_path := url_decode raw_path\<rparr>
    | Some qpos \<Rightarrow> req\<lparr>req_path := url_decode (substr raw_path 0 qpos),
        req_query := parse_query (substr_from raw_path (qpos + 1))\<rparr>)"

definition parse_request :: "recv_state \<Rightarrow> http_request" where
  "parse_request st =
     (let rw = raw st in
      case str_find rw CRLF 0 of
        None \<Rightarrow> empty_request
      | Some line_end \<Rightarrow>
          let request_line = substr rw 0 line_end in
          case find_char request_line (CHR '' '') 0 of
            None \<Rightarrow> empty_request
          | Some m_end \<Rightarrow>
              let p_start = m_end + 1;
                  p_end = (case find_char request_line (CHR '' '') p_start of
                      None \<Rightarrow> length request_line | Some p \<Rightarrow> p);
                  req = set_target (substr request_line p_start (p_end - p_start))
                    (empty_request\<lparr>req_method := substr request_line 0 m_end\<rparr>)
              in req\<lparr>req_headers := parse_headers rw (line_end + 2) Map.empty,
                     req_body := (if 0 < headers_end st \<and> headers_end st < length rw
                       then substr_from rw (headers_end st) else [])\<rparr>)"

definition read_and_parse :: "string list \<Rightarrow> http_request" where
  "read_and_parse bufs = parse_request (recv_loop recv_start bufs)"

end
