(* ===== verification/Wire.thy ===== *)
theory Wire
  imports Http
begin

text \<open>
  Messages on the wire: how the receive loop of \<open>read_and_parse\<close> frames a request whatever
  the blocks that \<open>recv\<close> returns, how a rendered request is parsed back, and how a client
  that frames by \<open>Content-Length\<close> reads what \<open>build_response\<close> writes.
\<close>

section \<open>Receiving\<close>

lemma scan_headers_append: "scan_headers s = Some x \<Longrightarrow> scan_headers (s @ t) = Some x"
  by (auto simp: scan_headers_def str_find_0 substr_def find_sub_append split: option.splits
    dest: find_sub_bound) (auto simp: header_end_mark_def dest!: find_sub_bound)

lemma scan_headers_Nil [simp]: "scan_headers [] = None"
  by (simp add: scan_headers_def str_find_0 header_end_mark_def)

lemma recv_loop_size:
  assumes "\<forall>b \<in> set bufs. length b \<le> RECV_BUF" "length (raw st) < MAX_REQUEST_BYTES + RECV_BUF"
  shows "length (raw (recv_loop st bufs)) < MAX_REQUEST_BYTES + RECV_BUF"
  using assms
proof (induction bufs arbitrary: st)
  case (Cons b bufs)
  have "raw (recv_block st b) = raw st @ b"
    by (auto simp: recv_block_def Let_def split: option.splits)
  with Cons show ?case by (auto simp: Let_def)
qed simp

lemma raw_recv_block: "raw (recv_block st b) = raw st @ b"
  by (auto simp: recv_block_def Let_def split: option.splits)

text \<open>A complete state of the loop holds the whole message, when no more of it is to come than it should.\<close>

lemma complete_frame:
  assumes "recv_complete st" "headers_end st = he \<and> content_length st = cl" "headers_done st"
    and "he + cl = length msg" "length msg \<le> MAX_REQUEST_BYTES" "raw st @ rest = msg"
  shows "st = \<lparr>raw = msg, headers_done = True, content_length = cl, headers_end = he\<rparr>"
proof -
  have "size_add he cl = length msg"
    using assms(4,5) by (simp add: size_add_def MAX_REQUEST_BYTES_def ULLONG_MOD_def)
  then have "length msg \<le> length (raw st)" using assms(1-3) by (simp add: recv_complete_def)
  with assms(6) have "raw st = msg" by auto
  with assms(2,3) show ?thesis by (intro recv_state.equality) simp_all
qed

lemma recv_loop_frame:
  assumes "scan_headers msg = Some (he, cl)" "he + cl = length msg" "length msg \<le> MAX_REQUEST_BYTES"
    and "[] \<notin> set bufs" "raw st @ concat bufs = msg"
    and "if headers_done st then headers_end st = he \<and> content_length st = cl
      else scan_headers (raw st) = None"
  shows "recv_loop st bufs = \<lparr>raw = msg, headers_done = True, content_length = cl, headers_end = he\<rparr>"
  using assms(4-6)
proof (induction bufs arbitrary: st)
  case Nil
  then show ?case using assms(1) by (cases st) (auto split: if_splits)
next
  case (Cons b bufs)
  have lt: "length (raw st) < MAX_REQUEST_BYTES" "b \<noteq> []"
  proof -
    show b: "b \<noteq> []" using Cons.prems(1) by auto
    have "length msg = length (raw st) + length b + length (concat bufs)"
      using Cons.prems(2) by auto
    moreover have "0 < length b" using b by simp
    ultimately show "length (raw st) < MAX_REQUEST_BYTES" using assms(3) by linarith
  qed
  let ?st = "recv_block st b"
  note raw = raw_recv_block[of st b]
  have app: "raw ?st @ concat bufs = msg" using Cons.prems(2) raw by simp
  have inv: "if headers_done ?st then headers_end ?st = he \<and> content_length ?st = cl
      else scan_headers (raw ?st) = None"
    using Cons.prems(3) scan_headers_append[of "raw st @ b" _ "concat bufs"] app raw assms(1)
    by (auto simp: recv_block_def Let_def split: option.splits if_splits)
  show ?case
  proof (cases "recv_complete ?st")
    case False
    then show ?thesis using lt Cons.IH[OF _ app inv] Cons.prems(1) by simp
  next
    case True
    then have "headers_done ?st" by (simp add: recv_complete_def)
    with inv complete_frame[OF True _ _ assms(2,3) app]
    have "?st = \<lparr>raw = msg, headers_done = True, content_length = cl, headers_end = he\<rparr>" by simp
    with lt True show ?thesis by (simp add: Let_def)
  qed
qed

section \<open>Lower case\<close>

lemma tolower_eq_low [simp]:
  assumes "byte c < 65" shows "tolower d = c \<longleftrightarrow> d = c" "c = tolower d \<longleftrightarrow> d = c"
  using assms by (auto simp: tolower_def chr_eq_iff)

lemma tolower_digit: "isdigit c \<Longrightarrow> tolower c = c"
  by (auto simp: tolower_def isdigit_def)

lemma to_lower_append: "to_lower (s @ t) = to_lower s @ to_lower t"
  by (simp add: to_lower_def)

lemma to_lower_Cons: "to_lower (c # s) = tolower c # to_lower s"
  by (simp add: to_lower_def)

lemma to_lower_Nil [simp]: "to_lower [] = []"
  by (simp add: to_lower_def)

lemma low_in_to_lower [simp]: "byte c < 65 \<Longrightarrow> c \<in> set (to_lower s) \<longleftrightarrow> c \<in> set s"
  by (induction s) (auto simp: to_lower_def)

lemma to_lower_concat: "to_lower (concat ss) = concat (map to_lower ss)"
  by (induction ss) (auto simp: to_lower_def)

lemma length_to_lower [simp]: "length (to_lower s) = length s"
  by (simp add: to_lower_def)

lemma to_lower_show_nat [simp]: "to_lower (show_nat n) = show_nat n"
  using show_nat_digits[of n] by (auto simp: to_lower_def tolower_digit intro: map_idI)

lemma show_nat_no_CR [simp]: "CR \<notin> set (show_nat n)"
  using show_nat_digits[of n] by (auto simp: isdigit_def)

lemma trim_show_nat: "trim (SP # show_nat n) = show_nat n"
proof -
  have "\<forall>c \<in> set (show_nat n). \<not> is_ws c"
    using show_nat_digits[of n] by (auto simp: isdigit_def is_ws_def)
  then have "trim (show_nat n) = show_nat n" by (intro trim_id) simp
  then show ?thesis using trim_pad[of "[SP]" "[]" "show_nat n"] by (simp add: is_ws_def)
qed

section \<open>Framing\<close>

abbreviation cl_name :: string where "cl_name \<equiv> ''content-length:''"

text \<open>A head: a start line, header lines, the content length among them, and the blank line.\<close>

definition head_text :: "string \<Rightarrow> string list \<Rightarrow> string" where
  "head_text start ls = start @ crlf_lines ls @ CRLF @ CRLF"

definition cl_line :: "nat \<Rightarrow> string" where
  "cl_line n = ''Content-Length: '' @ show_nat n"

lemma find_blank_line:
  assumes "CR \<notin> set start" "\<forall>l \<in> set ls. CR \<notin> set l \<and> l \<noteq> []"
  shows "find_sub header_end_mark (head_text start ls @ b) = Some (length start + length (crlf_lines ls))"
proof -
  have "find_sub (CRLF @ CRLF) (crlf_lines ls @ CRLF @ (CRLF @ b)) = Some (length (crlf_lines ls))"
  proof (rule find_crlf_lines)
    show "\<forall>l \<in> set ls. \<forall>rest. \<not> prefix CRLF (l @ CR # rest)"
    proof (intro ballI allI)
      fix l rest assume "l \<in> set ls"
      with assms(2) have "CR \<notin> set l" "l \<noteq> []" by auto
      then obtain c l' where "l = c # l'" "c \<noteq> CR" by (cases l) auto
      then show "\<not> prefix CRLF (l @ CR # rest)" by auto
    qed
  qed (use assms in auto)
  then show ?thesis
    using find_sub_skip[OF assms(1), of "LF # CRLF" "crlf_lines ls @ CRLF @ (CRLF @ b)"]
    by (simp add: head_text_def header_end_mark_def)
qed

lemma content_length_of_eq:
  assumes "to_lower h = H" "str_find H (CRLF @ cl_name) 0 = Some k"
    "str_find H CRLF (k + 17) = Some e" "substr H (k + 17) (e - (k + 17)) = v" "stoull (trim v) = Inr n"
  shows "content_length_of h = n"
  using assms by (simp add: content_length_of_def Let_def)

lemma content_length_found:
  assumes "CR \<notin> set start" "\<forall>l \<in> set pre. CR \<notin> set l \<and> \<not> prefix cl_name (to_lower l)"
    and "n < ULLONG_MOD"
  shows "content_length_of (head_text start (pre @ cl_line n # post)) = n"
proof -
  let ?low = "map to_lower"
  let ?tail = "crlf_lines (?low post) @ CRLF @ CRLF"
  let ?val = "SP # show_nat n"
  let ?h = "to_lower start @ crlf_lines (?low pre) @ CRLF @ cl_name @ ?val @ ?tail"
  have low: "to_lower (head_text start (pre @ cl_line n # post)) = ?h"
    by (simp add: head_text_def cl_line_def to_lower_append to_lower_concat to_lower_Cons
      tolower_def chr_eq_iff comp_def)
  have "find_sub (CRLF @ cl_name) (crlf_lines (?low pre) @ CRLF @ (cl_name @ ?val @ ?tail))
      = Some (length (crlf_lines (?low pre)))"
    by (rule find_crlf_lines) (use assms(2) in \<open>auto simp del: append_Cons simp: prefix_before_CR\<close>)
  then have pos: "str_find ?h (CRLF @ cl_name) 0
      = Some (length (to_lower start) + length (crlf_lines (?low pre)))"
    using find_sub_skip[of CR "to_lower start" "LF # cl_name"
      "crlf_lines (?low pre) @ CRLF @ (cl_name @ ?val @ ?tail)"] assms(1)
    by (simp add: str_find_0)
  obtain r where r: "?tail = CRLF @ r" by (cases post) auto
  let ?p = "to_lower start @ crlf_lines (?low pre) @ CRLF @ cl_name"
  have h: "?h = ?p @ ?val @ ?tail" by simp
  have lp: "length (to_lower start) + length (crlf_lines (?low pre)) + 17 = length ?p" by simp
  have "find_sub CRLF (?val @ CRLF @ r) = Some (length ?val)"
    using find_sub_skip[of CR ?val "[LF]" "CRLF @ r"] by (simp add: find_sub_prefix)
  then have en: "str_find ?h CRLF (length ?p) = Some (length ?p + length ?val)"
    using str_find_drop[of ?p "?val @ CRLF @ r" CRLF] r by simp
  have val: "substr ?h (length ?p) (length ?p + length ?val - length ?p) = ?val"
    unfolding h substr_def by simp
  have num: "stoull (trim ?val) = Inr n"
    using stoull_show_nat[of n "[]"] assms(3) by (simp add: trim_show_nat)
  show ?thesis
    by (rule content_length_of_eq[OF low pos, unfolded lp, OF en val num])
qed

lemma scan_head:
  assumes "CR \<notin> set start" "\<forall>l \<in> set (pre @ post). CR \<notin> set l \<and> l \<noteq> []"
    and "\<forall>l \<in> set pre. \<not> prefix cl_name (to_lower l)" "n < ULLONG_MOD"
  defines "h \<equiv> head_text start (pre @ cl_line n # post)"
  shows "scan_headers (h @ b) = Some (length h, n)"
proof -
  let ?ls = "pre @ cl_line n # post"
  have "str_find (h @ b) header_end_mark 0 = Some (length start + length (crlf_lines ?ls))"
    unfolding h_def str_find_0 by (rule find_blank_line) (use assms in \<open>auto simp: cl_line_def\<close>)
  moreover have "length start + length (crlf_lines ?ls) + 4 = length h"
    by (simp add: h_def head_text_def)
  moreover have "content_length_of h = n"
    unfolding h_def using assms by (intro content_length_found) auto
  ultimately show ?thesis by (simp add: scan_headers_def substr_def)
qed

section \<open>Parsing a request\<close>

definition line_block :: "string list \<Rightarrow> string" where
  "line_block ls = concat (map (\<lambda>l. l @ CRLF) ls)"

lemma crlf_lines_block: "crlf_lines ls @ CRLF @ t = CRLF @ line_block ls @ t"
  by (induction ls) (simp_all add: line_block_def)

lemma head_text_block: "head_text start ls = start @ CRLF @ line_block ls @ CRLF"
  using crlf_lines_block[of ls CRLF] by (simp add: head_text_def)

lemma substr_0_append: "substr (s @ t) 0 (length s) = s"
  by (simp add: substr_def)

lemma find_CRLF_at: "CR \<notin> set l \<Longrightarrow> str_find (w @ l @ CRLF @ t) CRLF (length w) = Some (length w + length l)"
  using find_sub_skip[of CR l "[LF]" "CRLF @ t"] by (simp add: str_find_drop find_sub_prefix)

lemma parse_headers_line:
  assumes "CR \<notin> set l" "l \<noteq> []"
  shows "parse_headers (w @ l @ CRLF @ t) (length w) hs
    = parse_headers ((w @ l @ CRLF) @ t) (length (w @ l @ CRLF)) (add_header hs l)"
  using assms find_CRLF_at[OF assms(1), of w t]
  by (subst parse_headers.simps) (simp add: substr_def)

lemma parse_headers_blank: "parse_headers (w @ CRLF @ t) (length w) hs = hs"
  using find_CRLF_at[of "[]" w t] by (subst parse_headers.simps) simp

lemma parse_headers_block:
  "(\<And>l. l \<in> set ls \<Longrightarrow> CR \<notin> set l \<and> l \<noteq> []) \<Longrightarrow>
    parse_headers (w @ line_block ls @ CRLF @ t) (length w) hs = foldl add_header hs ls"
proof (induction ls arbitrary: w hs)
  case Nil
  then show ?case using parse_headers_blank by (simp add: line_block_def)
next
  case (Cons l ls)
  have "parse_headers (w @ line_block (l # ls) @ CRLF @ t) (length w) hs
      = parse_headers (w @ l @ CRLF @ (line_block ls @ CRLF @ t)) (length w) hs"
    by (simp add: line_block_def)
  also have "\<dots> = parse_headers ((w @ l @ CRLF) @ line_block ls @ CRLF @ t) (length (w @ l @ CRLF)) (add_header hs l)"
    using Cons.prems[of l] by (intro parse_headers_line) auto
  also have "\<dots> = foldl add_header (add_header hs l) ls"
    using Cons.prems by (intro Cons.IH) simp
  finally show ?case by simp
qed

lemma parse_headers_after:
  assumes "\<forall>l \<in> set ls. CR \<notin> set l \<and> l \<noteq> []"
  shows "parse_headers (start @ CRLF @ line_block ls @ CRLF @ t) (length start + 2) hs
    = foldl add_header hs ls"
  using parse_headers_block[of ls "start @ CRLF" t hs] assms by simp

definition header_line :: "string \<times> string \<Rightarrow> string" where
  "header_line h = fst h @ '': '' @ snd h"

definition header_ok :: "string \<times> string \<Rightarrow> bool" where
  "header_ok h \<longleftrightarrow> fst h \<noteq> [] \<and> CHR '':'' \<notin> set (fst h) \<and> CR \<notin> set (fst h) \<and> CR \<notin> set (snd h)
     \<and> trim (fst h) = fst h \<and> trim (snd h) = snd h"

definition header_map :: "(string \<times> string) list \<Rightarrow> str_map" where
  "header_map hs = foldl (\<lambda>f h. f(to_lower (fst h) \<mapsto> snd h)) Map.empty hs"

lemma add_header_line: "header_ok h \<Longrightarrow> add_header f (header_line h) = f(to_lower (fst h) \<mapsto> snd h)"
  using trim_pad[of "[SP]" "[]" "snd h"]
  by (simp add: header_ok_def header_line_def add_header_def find_char_0_append substr_def
    substr_from_def is_ws_def)

lemma foldl_add_header:
  "\<forall>h \<in> set hs. header_ok h \<Longrightarrow>
    foldl add_header f (map header_line hs) = foldl (\<lambda>f h. f(to_lower (fst h) \<mapsto> snd h)) f hs"
  by (induction hs arbitrary: f) (auto simp: add_header_line)

lemma parse_head:
  assumes "SP \<notin> set m" "SP \<notin> set tgt" "CR \<notin> set (m @ tgt)" "\<forall>h \<in> set hs. header_ok h"
  defines "h \<equiv> head_text (m @ SP # tgt @ '' HTTP/1.1'') (map header_line hs)"
  shows "parse_request \<lparr>raw = h @ b, headers_done = True, content_length = n, headers_end = length h\<rparr>
    = (set_target tgt (empty_request\<lparr>req_method := m\<rparr>))\<lparr>req_headers := header_map hs, req_body := b\<rparr>"
proof -
  let ?start = "m @ SP # tgt @ '' HTTP/1.1''"
  let ?ls = "map header_line hs"
  have h: "h @ b = ?start @ CRLF @ line_block ?ls @ CRLF @ b"
    by (simp add: h_def head_text_block)
  have "CR \<notin> set ?start" using assms(3) by auto
  then have le: "str_find (h @ b) CRLF 0 = Some (length ?start)"
    using find_CRLF_at[of ?start "[]" "line_block ?ls @ CRLF @ b"] unfolding h by simp
  have line: "substr (h @ b) 0 (length ?start) = ?start"
    unfolding h by (rule substr_0_append)
  have sp1: "find_char ?start SP 0 = Some (length m)"
    using find_char_0_append[OF assms(1)] by simp
  have sp2: "find_char ?start SP (length m + 1) = Some (length m + 1 + length tgt)"
    using find_char_append[OF assms(2), of "m @ [SP]" "length m + 1" "''HTTP/1.1''"] by simp
  have tgt: "substr ?start (length m + 1) (length m + 1 + length tgt - (length m + 1)) = tgt"
    by (simp add: substr_def)
  have hdr: "parse_headers (h @ b) (length ?start + 2) Map.empty = header_map hs"
    unfolding h header_map_def foldl_add_header[OF assms(4), symmetric]
    by (rule parse_headers_after) (use assms(4) in \<open>auto simp: header_line_def header_ok_def\<close>)
  have h_nonempty: "h \<noteq> []" by (simp add: h_def head_text_def)
  have body: "(if 0 < length h \<and> length h < length (h @ b) then substr_from (h @ b) (length h) else []) = b"
    using h_nonempty by (simp add: substr_from_def)
  show ?thesis
    unfolding parse_request_def recv_state.simps Let_def le option.case line sp1 sp2 tgt hdr body
    by (simp add: substr_def)
qed


section \<open>Targets\<close>

definition path_keep :: "char \<Rightarrow> bool" where
  "path_keep c \<longleftrightarrow> uri_keep c \<or> c = CHR ''/''"

definition render_query :: "(string \<times> string) list \<Rightarrow> string" where
  "render_query q = join_with (CHR ''&'')
     (map (\<lambda>kv. percent_encode uri_keep (fst kv) @ CHR ''='' # percent_encode uri_keep (snd kv)) q)"

definition render_target :: "string \<Rightarrow> (string \<times> string) list \<Rightarrow> string" where
  "render_target path q =
     percent_encode path_keep path @ (if q = [] then [] else CHR ''?'' # render_query q)"

lemma upper_hex_keep: "d < 16 \<Longrightarrow> uri_keep (upper_hex d)"
  by (auto simp: upper_hex_def uri_keep_def isdigit_def)

lemma percent_encode_chars:
  assumes "c \<in> set (percent_encode keep s)"
  shows "keep c \<or> c = CHR ''%'' \<or> uri_keep c"
  using assms
proof (induction s)
  case (Cons d s)
  have "uri_keep (upper_hex (byte d div 16))" "uri_keep (upper_hex (byte d mod 16))"
    by (rule upper_hex_keep, use byte_less[of d] in linarith)+
  with Cons show ?case by (auto split: if_splits)
qed simp

lemma percent_encode_free:
  "\<not> keep c \<Longrightarrow> \<not> uri_keep c \<Longrightarrow> c \<noteq> CHR ''%'' \<Longrightarrow> c \<notin> set (percent_encode keep s)"
  using percent_encode_chars by blast

lemma not_kept: "\<not> uri_keep SP" "\<not> uri_keep CR" "\<not> uri_keep (CHR ''?'')" "\<not> uri_keep (CHR ''&'')"
    "\<not> uri_keep (CHR ''='')"
    "\<not> path_keep SP" "\<not> path_keep CR" "\<not> path_keep (CHR ''?'')" "\<not> path_keep (CHR ''%'')" "\<not> path_keep (CHR ''+'')"
  by (auto simp: uri_keep_def path_keep_def isdigit_def)

lemma add_query_pairs_render:
  "add_query_pairs (map (\<lambda>kv. percent_encode uri_keep (fst kv) @ CHR ''='' # percent_encode uri_keep (snd kv)) q) f
    = foldl (\<lambda>f kv. f(fst kv \<mapsto> snd kv)) f q"
  by (induction q arbitrary: f)
    (auto simp: find_char_0_append percent_encode_free not_kept substr_0_append substr_from_def
      url_decode_percent_encode uri_keep_escapes)

lemma foldl_upd: "foldl (\<lambda>f kv. f(fst kv \<mapsto> snd kv)) f q = f ++ map_of (rev q)"
  by (induction q arbitrary: f) (auto simp: map_add_def fun_eq_iff map_of_append split: option.splits)

lemma parse_query_render: "parse_query (render_query q) = map_of (rev q)"
proof -
  have "split (render_query q) (CHR ''&'') =
      map (\<lambda>kv. percent_encode uri_keep (fst kv) @ CHR ''='' # percent_encode uri_keep (snd kv)) q"
    unfolding render_query_def
    by (rule split_join) (auto simp: percent_encode_free not_kept last_map)
  then show ?thesis by (simp add: parse_query_def add_query_pairs_render foldl_upd)
qed

lemma join_with_free: "c \<noteq> d \<Longrightarrow> \<forall>p \<in> set ps. c \<notin> set p \<Longrightarrow> c \<notin> set (join_with d ps)"
  by (induction d ps rule: join_with.induct) auto

lemma render_target_free: "SP \<notin> set (render_target path q)" "CR \<notin> set (render_target path q)"
  by (auto simp: render_target_def render_query_def percent_encode_free not_kept
    dest!: join_with_free[rotated, THEN notE, rotated -1])

lemma set_target_render:
  "set_target (render_target path q) (empty_request\<lparr>req_method := m\<rparr>)
    = empty_request\<lparr>req_method := m, req_path := path, req_query := map_of (rev q)\<rparr>"
proof -
  let ?e = "percent_encode path_keep path"
  have dec: "url_decode ?e = path" by (simp add: url_decode_percent_encode not_kept)
  have free: "CHR ''?'' \<notin> set ?e" by (simp add: percent_encode_free not_kept)
  show ?thesis
  proof (cases "q = []")
    case True
    have "find_char ?e (CHR ''?'') 0 = None"
      using free by (simp add: find_char_def str_find_0 find_sub_char)
    then show ?thesis using True dec by (simp add: set_target_def render_target_def empty_request_def)
  next
    case False
    then show ?thesis
      using find_char_0_append[OF free, of "render_query q"] dec parse_query_render[of q]
      by (simp add: set_target_def render_target_def substr_0_append substr_from_def)
  qed
qed

section \<open>Requests and responses on the wire\<close>

definition render_request ::
  "string \<Rightarrow> string \<Rightarrow> (string \<times> string) list \<Rightarrow> (string \<times> string) list \<Rightarrow> string \<Rightarrow> string" where
  "render_request m path q hs b =
     head_text (m @ SP # render_target path q @ '' HTTP/1.1'')
       (map header_line (hs @ [(''Content-Length'', show_nat (length b))])) @ b"

definition parsed_request ::
  "string \<Rightarrow> string \<Rightarrow> (string \<times> string) list \<Rightarrow> (string \<times> string) list \<Rightarrow> string \<Rightarrow> http_request" where
  "parsed_request m path q hs b =
     \<lparr>req_method = m, req_path = path,
      req_headers = header_map (hs @ [(''Content-Length'', show_nat (length b))]),
      req_query = map_of (rev q), req_params = Map.empty, req_body = b\<rparr>"

lemma header_line_not_cl:
  assumes "header_ok h" "to_lower (fst h) \<noteq> ''content-length''"
  shows "\<not> prefix cl_name (to_lower (header_line h))"
proof
  assume "prefix cl_name (to_lower (header_line h))"
  then have "prefix (''content-length'' @ '':'') (to_lower (fst h) @ CHR '':'' # SP # to_lower (snd h))"
    by (simp add: header_line_def to_lower_append to_lower_Cons tolower_def)
  moreover have "CHR '':'' \<notin> set (to_lower (fst h))"
    using assms(1) by (simp add: header_ok_def)
  ultimately have "''content-length'' = to_lower (fst h)"
    by (intro split_at_unique[of "CHR '':''"]) auto
  then show False using assms(2) by simp
qed

lemma recv_start_frame:
  assumes "scan_headers msg = Some (he, cl)" "he + cl = length msg" "length msg \<le> MAX_REQUEST_BYTES"
    and "[] \<notin> set bufs" "concat bufs = msg"
  shows "recv_loop recv_start bufs = \<lparr>raw = msg, headers_done = True, content_length = cl, headers_end = he\<rparr>"
  using recv_loop_frame[OF assms(1-4), of recv_start] assms(5) by (simp add: recv_start_def)

lemma header_ok_cl: "header_ok (''Content-Length'', show_nat n)"
proof -
  have "\<forall>c \<in> set (show_nat n). \<not> is_ws c"
    using show_nat_digits[of n] by (auto simp: isdigit_def is_ws_def)
  then have "trim (show_nat n) = show_nat n" by (intro trim_id) simp
  moreover have "trim ''Content-Length'' = ''Content-Length''" by (rule trim_id) (simp add: is_ws_def)
  ultimately show ?thesis by (simp add: header_ok_def)
qed

lemma parse_rendered:
  assumes "SP \<notin> set m" "CR \<notin> set m"
    and "\<forall>h \<in> set hs. header_ok h \<and> to_lower (fst h) \<noteq> ''content-length''"
    and "length (render_request m path q hs b) \<le> MAX_REQUEST_BYTES"
    and "[] \<notin> set bufs" "concat bufs = render_request m path q hs b"
  shows "read_and_parse bufs = parsed_request m path q hs b"
proof -
  let ?tgt = "render_target path q"
  let ?start = "m @ SP # ?tgt @ '' HTTP/1.1''"
  let ?hs = "hs @ [(''Content-Length'', show_nat (length b))]"
  let ?h = "head_text ?start (map header_line ?hs)"
  have cl: "header_line (''Content-Length'', show_nat (length b)) = cl_line (length b)"
    by (simp add: header_line_def cl_line_def)
  have msg: "render_request m path q hs b = ?h @ b" by (simp add: render_request_def)
  have "scan_headers (?h @ b) = Some (length ?h, length b)"
    using scan_head[of ?start "map header_line hs" "[]" "length b" b] assms(2,3,4)
      render_target_free[of path q]
    by (auto simp: header_line_not_cl cl msg MAX_REQUEST_BYTES_def ULLONG_MOD_def)
      (auto simp: header_ok_def header_line_def)
  then have "recv_loop recv_start bufs
      = \<lparr>raw = ?h @ b, headers_done = True, content_length = length b, headers_end = length ?h\<rparr>"
    using assms(4-6) unfolding msg by (intro recv_start_frame) auto
  moreover have "\<forall>h \<in> set ?hs. header_ok h" using assms(3) header_ok_cl by auto
  ultimately show ?thesis
    using parse_head[of m ?tgt ?hs b "length b"] assms(1,2) render_target_free[of path q]
    by (simp add: read_and_parse_def parsed_request_def set_target_render) (simp add: empty_request_def)
qed

text \<open>
  C20. A request reaches the handlers as it was sent, whatever the blocks in which it arrives.
\<close>

theorem request_roundtrip:
  assumes "SP \<notin> set m" "CR \<notin> set m"
    and "\<forall>h \<in> set hs. header_ok h \<and> to_lower (fst h) \<noteq> ''content-length''"
    and "length (render_request m path q hs b) \<le> MAX_REQUEST_BYTES"
    and "[] \<notin> set bufs" "concat bufs = render_request m path q hs b"
  shows "read_and_parse bufs = parsed_request m path q hs b"
  using assms by (rule parse_rendered)

theorem request_roundtrip_witness:
  "read_and_parse [''POST /api HTTP/1.1'' @ CRLF @ ''X: y'' @ CRLF @ ''Content-Length: 2'' @ CRLF, CRLF @ ''h'', ''i'']
    = parsed_request ''POST'' ''/api'' [] [(''X'', ''y'')] ''hi''"
proof (rule request_roundtrip)
  have n: "show_nat (Suc (Suc 0)) = ''2''" by (simp add: show_nat.simps digit_char_def chr_eq_iff)
  have r: "render_request ''POST'' ''/api'' [] [(''X'', ''y'')] ''hi''
     = ''POST /api HTTP/1.1'' @ CRLF @ ''X: y'' @ CRLF @ ''Content-Length: 2'' @ CRLF @ CRLF @ ''hi''"
    by (simp add: render_request_def head_text_def header_line_def render_target_def n
      path_keep_def uri_keep_def isdigit_def)
  show "length (render_request ''POST'' ''/api'' [] [(''X'', ''y'')] ''hi'') \<le> MAX_REQUEST_BYTES"
    by (simp add: r MAX_REQUEST_BYTES_def)
  show "concat [''POST /api HTTP/1.1'' @ CRLF @ ''X: y'' @ CRLF @ ''Content-Length: 2'' @ CRLF, CRLF @ ''h'', ''i'']
     = render_request ''POST'' ''/api'' [] [(''X'', ''y'')] ''hi''"
    by (simp add: r)
qed (auto simp: header_ok_def trim_id is_ws_def to_lower_def tolower_def)

text \<open>
  The receive loop never holds more than the limit and one block.
\<close>

theorem recv_bounded:
  assumes "\<forall>b \<in> set bufs. length b \<le> RECV_BUF"
  shows "length (raw (recv_loop recv_start bufs)) < MAX_REQUEST_BYTES + RECV_BUF"
  by (rule recv_loop_size[OF assms]) (simp add: recv_start_def RECV_BUF_def)

theorem recv_bounded_witness:
  "length (raw (recv_loop recv_start [''GET '', ''/''])) < MAX_REQUEST_BYTES + RECV_BUF"
  by (rule recv_bounded) (simp add: RECV_BUF_def)

definition declared_head :: "string \<Rightarrow> string \<Rightarrow> nat \<Rightarrow> string" where
  "declared_head m tgt n = head_text (m @ SP # tgt @ '' HTTP/1.1'') [cl_line n]"

lemma scan_declared:
  "CR \<notin> set (m @ tgt) \<Longrightarrow> n < ULLONG_MOD \<Longrightarrow>
    scan_headers (declared_head m tgt n @ t) = Some (length (declared_head m tgt n), n)"
  using scan_head[of "m @ SP # tgt @ '' HTTP/1.1''" "[]" "[]" n t] by (simp add: declared_head_def)

lemma parse_declared:
  assumes "SP \<notin> set (m @ tgt)" "CR \<notin> set (m @ tgt)"
  shows "req_body (parse_request \<lparr>raw = declared_head m tgt n @ b, headers_done = True, content_length = k,
    headers_end = length (declared_head m tgt n)\<rparr>) = b"
  using parse_head[of m tgt "[(''Content-Length'', show_nat n)]" b k] assms header_ok_cl[of n]
  by (simp add: declared_head_def cl_line_def header_line_def)

lemma recv_first_block:
  assumes "scan_headers s = Some (he, cl)" "size_add he cl \<le> length s" "s \<noteq> []"
  shows "recv_loop recv_start (s # later)
    = \<lparr>raw = s, headers_done = True, content_length = cl, headers_end = he\<rparr>"
  using assms by (simp add: recv_start_def recv_block_def recv_complete_def Let_def MAX_REQUEST_BYTES_def)



text \<open>
  C36. A declared length that wraps \<open>size_t\<close> ends the reading with the head: the body is empty,
  whatever the client sends next.
\<close>

theorem huge_length_ends_reading:
  assumes "SP \<notin> set (m @ tgt)" "CR \<notin> set (m @ tgt)"
    and "n < ULLONG_MOD" "ULLONG_MOD \<le> n + length (declared_head m tgt n)"
  shows "req_body (read_and_parse (declared_head m tgt n # later)) = []"
proof -
  let ?h = "declared_head m tgt n"
  have "length ?h + n - ULLONG_MOD \<le> length ?h" using assms(3) by linarith
  moreover have "size_add (length ?h) n \<le> length ?h + n - ULLONG_MOD"
    using assms(4) by (simp add: size_add_def le_mod_geq add.commute)
  ultimately have "size_add (length ?h) n \<le> length ?h" by linarith
  then have "recv_loop recv_start (?h # later)
      = \<lparr>raw = ?h, headers_done = True, content_length = n, headers_end = length ?h\<rparr>"
    using scan_declared[OF assms(2,3), of "[]"]
    by (intro recv_first_block) (auto simp: declared_head_def head_text_def)
  then show ?thesis
    using parse_declared[OF assms(1,2), of n "[]" n] by (simp add: read_and_parse_def)
qed

theorem huge_length_ends_reading_witness:
  "req_body (read_and_parse [declared_head ''POST'' ''/'' 18446744073709551615, ''hi'']) = []"
  by (rule huge_length_ends_reading) (simp_all add: ULLONG_MOD_def declared_head_def head_text_def)

lemma response_head_text:
  "response_head cors r = head_text
     (''HTTP/1.1 '' @ show_int (status_code r) @ '' '' @ (if status_text r = [] then ''OK'' else status_text r))
     ([''Content-Type: '' @ content_type r @ ''; charset=utf-8''] @ cl_line (length (resp_body r))
       # [''Connection: close'', ''Access-Control-Allow-Origin: '' @ cors,
          ''Access-Control-Allow-Methods: GET, POST, DELETE, OPTIONS'',
          ''Access-Control-Allow-Headers: Content-Type, Authorization''])"
  by (simp add: response_head_def head_text_def cl_line_def)

lemma show_int_no_CR [simp]: "CR \<notin> set (show_int i)"
  by (simp add: show_int_def)

text \<open>
  A client that frames by the content length reads the body that the handler produced, for
  every response whose head fields have no carriage return, in particular for those of the
  factories.
\<close>

lemma framing:
  assumes "CR \<notin> set cors" "CR \<notin> set (status_text r)" "CR \<notin> set (content_type r)"
    and "length (resp_body r) < ULLONG_MOD"
  shows "\<exists>he. scan_headers (build_response cors r) = Some (he, length (resp_body r))
    \<and> substr_from (build_response cors r) he = resp_body r"
proof -
  have "scan_headers (build_response cors r) = Some (length (response_head cors r), length (resp_body r))"
    unfolding build_response_def response_head_text
    by (rule scan_head) (use assms in \<open>auto simp: to_lower_append to_lower_Cons tolower_def chr_eq_iff\<close>)
  then show ?thesis by (simp add: build_response_def substr_from_def)
qed

end
