(* ===== verification/Rate_Limiter.thy ===== *)
theory Rate_Limiter
  imports Prelude "HOL-Library.Signed_Division"
begin

text \<open>
  \<open>backend/src/rate_limiter.hpp\<close>: the per-IP fixed-window counter.  Times are readings of the
  steady clock in nanoseconds since its epoch; \<open>allow\<close> reads the clock before it takes the
  mutex, so that the readings of successive calls need not ascend, and no lemma below assumes
  that they do.  The body under the mutex is one atomic step of the model.  The C++ counter is an
  \<open>int\<close>; \<open>rl_count_le_calls\<close> bounds it by the number of calls, so that it stays in range for
  fewer than \<open>2 ^ 31\<close> calls.
\<close>

section \<open>State and operation\<close>

record rl_entry =
  window_start :: int
  rl_count :: int

record rate_limiter =
  rl_max :: int
  rl_table :: "string \<rightharpoonup> rl_entry"

definition rl_new :: "int \<Rightarrow> rate_limiter" where
  "rl_new m = \<lparr>rl_max = m, rl_table = Map.empty\<rparr>"

text \<open>\<open>table_[ip]\<close> default-constructs a missing entry.\<close>

definition rl_entry_of :: "rate_limiter \<Rightarrow> string \<Rightarrow> rl_entry" where
  "rl_entry_of rl ip = (case rl_table rl ip of
      None \<Rightarrow> \<lparr>window_start = 0, rl_count = 0\<rparr>
    | Some e \<Rightarrow> e)"

definition rl_put :: "rate_limiter \<Rightarrow> string \<Rightarrow> rl_entry \<Rightarrow> rate_limiter" where
  "rl_put rl ip e = rl\<lparr>rl_table := (rl_table rl)(ip \<mapsto> e)\<rparr>"

definition allow :: "int \<Rightarrow> string \<Rightarrow> rate_limiter \<Rightarrow> bool \<times> rate_limiter" where
  "allow now ip rl =
     (if rl_max rl \<le> 0 then (True, rl)
      else
        let entry = rl_entry_of rl ip;
            elapsed = (now - window_start entry) sdiv 1000000000
        in if 60 \<le> elapsed
           then (True, rl_put rl ip \<lparr>window_start = now, rl_count = 1\<rparr>)
           else
             let entry' = entry\<lparr>rl_count := rl_count entry + 1\<rparr>
             in (rl_count entry' \<le> rl_max rl, rl_put rl ip entry'))"

text \<open>A sequence of calls, each a clock reading and an address, with the answers given.\<close>

fun rl_run :: "rate_limiter \<Rightarrow> (int \<times> string) list \<Rightarrow> bool list \<times> rate_limiter" where
  "rl_run rl [] = ([], rl)"
| "rl_run rl ((t, ip) # cs) =
     (let (b, rl') = allow t ip rl; (bs, rl'') = rl_run rl' cs in (b # bs, rl''))"

text \<open>How many of the calls of one address were permitted.\<close>

fun granted :: "string \<Rightarrow> rate_limiter \<Rightarrow> (int \<times> string) list \<Rightarrow> nat" where
  "granted ip rl [] = 0"
| "granted ip rl ((t, j) # cs) =
     (if fst (allow t j rl) \<and> j = ip then 1 else 0) + granted ip (snd (allow t j rl)) cs"

section \<open>One call\<close>

abbreviation WINDOW :: int where "WINDOW \<equiv> 60000000000"

lemma elapsed_iff: "60 \<le> d sdiv 1000000000 \<longleftrightarrow> WINDOW \<le> (d :: int)"
proof (cases "0 \<le> d")
  case True
  then show ?thesis by (cases "d = 0") (simp_all add: signed_divide_int_def, linarith)
next
  case False
  then have "d sdiv 1000000000 \<le> 0"
    by (simp add: signed_divide_int_def sgn_if)
  with False show ?thesis by linarith
qed

lemma rl_entry_of_put [simp]: "rl_entry_of (rl_put rl j e) ip = (if j = ip then e else rl_entry_of rl ip)"
  by (simp add: rl_entry_of_def rl_put_def)

lemma rl_max_put [simp]: "rl_max (rl_put rl j e) = rl_max rl"
  by (simp add: rl_put_def)

lemma rl_put_put [simp]: "rl_put (rl_put rl ip e) ip e' = rl_put rl ip e'"
  by (simp add: rl_put_def)

lemma allow_disabled: "rl_max rl \<le> 0 \<Longrightarrow> allow t ip rl = (True, rl)"
  by (simp add: allow_def)

lemma allow_reset:
  "0 < rl_max rl \<Longrightarrow> WINDOW \<le> t - window_start (rl_entry_of rl ip) \<Longrightarrow>
    allow t ip rl = (True, rl_put rl ip \<lparr>window_start = t, rl_count = 1\<rparr>)"
  by (simp add: allow_def elapsed_iff)

lemma allow_count:
  "0 < rl_max rl \<Longrightarrow> t - window_start (rl_entry_of rl ip) < WINDOW \<Longrightarrow>
    allow t ip rl = (rl_count (rl_entry_of rl ip) + 1 \<le> rl_max rl,
      rl_put rl ip ((rl_entry_of rl ip)\<lparr>rl_count := rl_count (rl_entry_of rl ip) + 1\<rparr>))"
  by (simp add: allow_def elapsed_iff Let_def)

lemma allow_cases [consumes 1, case_names reset count]:
  assumes "0 < rl_max rl"
  obtains "WINDOW \<le> t - window_start (rl_entry_of rl ip)"
      "allow t ip rl = (True, rl_put rl ip \<lparr>window_start = t, rl_count = 1\<rparr>)"
    | "t - window_start (rl_entry_of rl ip) < WINDOW"
      "allow t ip rl = (rl_count (rl_entry_of rl ip) + 1 \<le> rl_max rl,
        rl_put rl ip ((rl_entry_of rl ip)\<lparr>rl_count := rl_count (rl_entry_of rl ip) + 1\<rparr>))"
  using assms allow_reset allow_count by (meson not_less)

lemma rl_max_allow [simp]: "rl_max (snd (allow t ip rl)) = rl_max rl"
  by (simp add: allow_def Let_def)

lemma allow_other: "j \<noteq> ip \<Longrightarrow> rl_entry_of (snd (allow t j rl)) ip = rl_entry_of rl ip"
  by (simp add: allow_def Let_def)

section \<open>Runs\<close>

lemma rl_max_run [simp]: "rl_max (snd (rl_run rl cs)) = rl_max rl"
  by (induction cs arbitrary: rl) (auto simp: case_prod_beta Let_def)

lemma rl_run_append: "snd (rl_run rl (cs @ ds)) = snd (rl_run (snd (rl_run rl cs)) ds)"
  by (induction cs arbitrary: rl) (auto simp: case_prod_beta Let_def)

lemma granted_append: "granted ip rl (cs @ ds) = granted ip rl cs + granted ip (snd (rl_run rl cs)) ds"
  by (induction cs arbitrary: rl) (auto simp: case_prod_beta Let_def)

definition rl_wf :: "rate_limiter \<Rightarrow> bool" where
  "rl_wf rl \<longleftrightarrow> (\<forall>ip. 0 \<le> rl_count (rl_entry_of rl ip))"

lemma rl_wf_new: "rl_wf (rl_new m)"
  by (simp add: rl_wf_def rl_new_def rl_entry_of_def)

lemma rl_wf_allow: "rl_wf rl \<Longrightarrow> rl_wf (snd (allow t ip rl))"
  by (auto simp: rl_wf_def allow_def Let_def)

lemma rl_wf_run: "rl_wf rl \<Longrightarrow> rl_wf (snd (rl_run rl cs))"
  by (induction cs arbitrary: rl) (auto simp: case_prod_beta Let_def rl_wf_allow)

text \<open>No window opens during the calls: what is left of the current one bounds them.\<close>

lemma granted_in_window:
  assumes "0 < rl_max rl" and "\<forall>(t, j) \<in> set cs. j = ip \<longrightarrow> t < T + WINDOW"
    and "T \<le> window_start (rl_entry_of rl ip)"
  shows "granted ip rl cs \<le> nat (rl_max rl - rl_count (rl_entry_of rl ip))"
  using assms
proof (induction cs arbitrary: rl)
  case (Cons c cs)
  obtain t j where c: "c = (t, j)" by (cases c)
  show ?case
  proof (cases "j = ip")
    case False
    with Cons.prems c have "granted ip (snd (allow t j rl)) cs
        \<le> nat (rl_max rl - rl_count (rl_entry_of rl ip))"
      using Cons.IH[of "snd (allow t j rl)"] by (simp add: allow_other)
    with False c show ?thesis by simp
  next
    case True
    from Cons.prems True c have lt: "t - window_start (rl_entry_of rl ip) < WINDOW" by auto
    let ?rl = "snd (allow t ip rl)"
    have "granted ip ?rl cs \<le> nat (rl_max ?rl - rl_count (rl_entry_of ?rl ip))"
      using Cons.prems by (intro Cons.IH) (auto simp: allow_count[OF Cons.prems(1) lt])
    then show ?thesis using True c by (simp add: allow_count[OF Cons.prems(1) lt]) linarith
  qed
qed simp

text \<open>Calls within sixty seconds: the current window and at most one more.\<close>

lemma granted_in_minute:
  assumes "0 < rl_max rl" and "\<forall>(t, j) \<in> set cs. j = ip \<longrightarrow> T \<le> t \<and> t < T + WINDOW"
  shows "granted ip rl cs \<le> nat (rl_max rl - rl_count (rl_entry_of rl ip)) + nat (rl_max rl)"
  using assms
proof (induction cs arbitrary: rl)
  case (Cons c cs)
  obtain t j where c: "c = (t, j)" by (cases c)
  let ?rl = "snd (allow t j rl)"
  have rest: "\<forall>(t, j) \<in> set cs. j = ip \<longrightarrow> T \<le> t \<and> t < T + WINDOW" using Cons.prems by simp
  have IH: "granted ip ?rl cs \<le> nat (rl_max rl - rl_count (rl_entry_of ?rl ip)) + nat (rl_max rl)"
    using Cons.IH[of ?rl] Cons.prems(1) rest by simp
  show ?case
  proof (cases "j = ip")
    case False
    with c IH show ?thesis by (simp add: allow_other)
  next
    case True
    from Cons.prems(1) show ?thesis
    proof (cases rule: allow_cases[of rl t ip])
      case reset
      have "granted ip ?rl cs \<le> nat (rl_max ?rl - rl_count (rl_entry_of ?rl ip))"
        using Cons.prems rest True c reset by (intro granted_in_window[where T = T]) auto
      then show ?thesis using True c reset Cons.prems(1) by simp
    next
      case count
      then show ?thesis using True c IH by simp linarith
    qed
  qed
qed simp

section \<open>A window and its answers\<close>

text \<open>Calls of one address that all fall into its current window: the counter decides.\<close>

lemma rl_run_in_window:
  assumes "0 < rl_max rl" and "\<forall>t \<in> set ts. t < window_start (rl_entry_of rl ip) + WINDOW"
  shows "fst (rl_run rl (map (\<lambda>t. (t, ip)) ts))
    = map (\<lambda>i. rl_count (rl_entry_of rl ip) + int i + 1 \<le> rl_max rl) [0..<length ts]"
  using assms
proof (induction ts arbitrary: rl)
  case (Cons t ts)
  let ?rl = "snd (allow t ip rl)"
  have lt: "t - window_start (rl_entry_of rl ip) < WINDOW" using Cons.prems(2) by simp
  note a = allow_count[OF Cons.prems(1) lt]
  have "fst (rl_run ?rl (map (\<lambda>t. (t, ip)) ts))
      = map (\<lambda>i. rl_count (rl_entry_of ?rl ip) + int i + 1 \<le> rl_max ?rl) [0..<length ts]"
    using Cons.prems by (intro Cons.IH) (auto simp: a)
  also have "\<dots> = map (\<lambda>i. rl_count (rl_entry_of rl ip) + int i + 1 \<le> rl_max rl) [1..<Suc (length ts)]"
    by (simp add: a map_Suc_upt [symmetric] algebra_simps del: upt_Suc)
  finally show ?case
    by (simp add: a case_prod_beta Let_def upt_conv_Cons del: upt_Suc)
qed simp

lemma rl_count_le_calls:
  assumes "0 < rl_max rl" "0 \<le> rl_count (rl_entry_of rl ip)"
  shows "rl_count (rl_entry_of (snd (rl_run rl cs)) ip) \<le> max 1 (rl_count (rl_entry_of rl ip)) + int (length cs)"
  using assms
proof (induction cs arbitrary: rl)
  case (Cons c cs)
  obtain t j where c: "c = (t, j)" by (cases c)
  let ?rl = "snd (allow t j rl)"
  have 1: "rl_count (rl_entry_of ?rl ip) \<le> max 1 (rl_count (rl_entry_of rl ip) + 1)"
    "0 \<le> rl_count (rl_entry_of ?rl ip)"
    using Cons.prems by (auto simp: allow_def Let_def)
  show ?case using Cons.IH[of ?rl] Cons.prems(1) 1 c by (simp add: case_prod_beta Let_def)
qed simp

lemma granted_replicate:
  assumes "0 < rl_max rl" "t - window_start (rl_entry_of rl ip) < WINDOW"
    "rl_count (rl_entry_of rl ip) + int n \<le> rl_max rl"
  shows "granted ip rl (replicate n (t, ip) @ cs)
    = n + granted ip (rl_put rl ip ((rl_entry_of rl ip)\<lparr>rl_count := rl_count (rl_entry_of rl ip) + int n\<rparr>)) cs
      \<or> n = 0"
  using assms
proof (induction n arbitrary: rl)
  case (Suc n)
  let ?rl = "snd (allow t ip rl)"
  note a = allow_count[OF Suc.prems(1,2)]
  have "granted ip ?rl (replicate n (t, ip) @ cs)
    = n + granted ip (rl_put ?rl ip ((rl_entry_of ?rl ip)\<lparr>rl_count := rl_count (rl_entry_of ?rl ip) + int n\<rparr>)) cs
      \<or> n = 0"
    using Suc.prems by (intro Suc.IH) (auto simp: a)
  then show ?case using Suc.prems(3)
    by (cases "n = 0") (simp_all add: a algebra_simps)
qed simp

lemma allow_cong:
  assumes "rl_max r = rl_max s" "rl_entry_of r ip = rl_entry_of s ip"
  shows "fst (allow t ip r) = fst (allow t ip s)"
    and "rl_entry_of (snd (allow t ip r)) ip = rl_entry_of (snd (allow t ip s)) ip"
  using assms by (simp_all add: allow_def Let_def)

lemma granted_filter:
  assumes "rl_max r = rl_max s" "rl_entry_of r ip = rl_entry_of s ip"
  shows "granted ip r cs = granted ip s (filter (\<lambda>(t, j). j = ip) cs)"
  using assms
proof (induction cs arbitrary: r s)
  case (Cons c cs)
  obtain t j where c: "c = (t, j)" by (cases c)
  show ?case
  proof (cases "j = ip")
    case True
    have "granted ip (snd (allow t ip r)) cs
        = granted ip (snd (allow t ip s)) (filter (\<lambda>(t, j). j = ip) cs)"
      using Cons.prems allow_cong(2)[OF Cons.prems] by (intro Cons.IH) auto
    then show ?thesis using True c allow_cong(1)[OF Cons.prems] by simp
  next
    case False
    then have "granted ip (snd (allow t j r)) cs = granted ip s (filter (\<lambda>(t, j). j = ip) cs)"
      using Cons.prems by (intro Cons.IH) (auto simp: allow_other)
    then show ?thesis using False c by simp
  qed
qed simp

section \<open>Properties\<close>

text \<open>
  Whatever happened before, an address is granted at most twice the configured number of
  requests within any sixty seconds, in whatever order the clock readings arrive.
\<close>

theorem rl_minute_bound:
  assumes "0 < m" and "\<forall>(t, j) \<in> set cs. j = ip \<longrightarrow> T \<le> t \<and> t < T + 60000000000"
  shows "granted ip (snd (rl_run (rl_new m) pre)) cs \<le> 2 * nat m"
proof -
  let ?rl = "snd (rl_run (rl_new m) pre)"
  have m: "rl_max ?rl = m" by (simp add: rl_new_def)
  have "0 \<le> rl_count (rl_entry_of ?rl ip)"
    using rl_wf_run[OF rl_wf_new] by (simp add: rl_wf_def)
  then show ?thesis
    using granted_in_minute[of ?rl cs ip T] assms m by simp
qed

theorem rl_minute_bound_witness:
  "granted ''ip'' (snd (rl_run (rl_new 1) [(70000000000, ''ip'')]))
     [(129000000000, ''ip''), (130000000000, ''ip''), (131000000000, ''other'')] \<le> 2 * nat 1"
  by (rule rl_minute_bound[where T = 129000000000]) simp_all

text \<open>
  The answers inside one window: a call that finds its window expired opens a new one, and of
  it and the calls that follow before the sixty seconds are over exactly the first \<open>max_\<close> are
  permitted.
\<close>

theorem rl_window_answers:
  assumes "0 < rl_max rl" and "60000000000 \<le> t0 - window_start (rl_entry_of rl ip)"
    and "\<forall>t \<in> set ts. t < t0 + 60000000000"
  shows "fst (rl_run rl (map (\<lambda>t. (t, ip)) (t0 # ts)))
    = map (\<lambda>i. int i < rl_max rl) [0..<Suc (length ts)]"
proof -
  let ?rl = "rl_put rl ip \<lparr>window_start = t0, rl_count = 1\<rparr>"
  have "fst (rl_run ?rl (map (\<lambda>t. (t, ip)) ts))
      = map (\<lambda>i. 1 + int i + 1 \<le> rl_max rl) [0..<length ts]"
    using rl_run_in_window[of ?rl ts ip] assms by simp
  also have "\<dots> = map (\<lambda>i. int i < rl_max rl) [1..<Suc (length ts)]"
    by (auto simp: map_Suc_upt [symmetric] simp del: upt_Suc)
  finally show ?thesis
    using assms(1) by (simp add: allow_reset[OF assms(1,2)] case_prod_beta Let_def upt_conv_Cons del: upt_Suc)
qed

theorem rl_window_answers_witness:
  "fst (rl_run (rl_new 2) (map (\<lambda>t. (t, ''ip'')) [60000000000, 60000000001, 90000000000]))
    = map (\<lambda>i. int i < rl_max (rl_new 2)) [0..<Suc (length [60000000001, 90000000000 :: int])]"
  by (rule rl_window_answers) (simp_all add: rl_new_def rl_entry_of_def)

text \<open>
  C29. The window is fixed, not sliding: for every limit there are \<open>2 * max_ - 1\<close> calls of one
  address, within half a second, that are all permitted.
\<close>

theorem rl_two_bursts:
  fixes ip :: string
  assumes "0 < m" and "60000000000 \<le> T"
  defines "cs \<equiv> replicate (m - 1) (T + 59500000000, ip) @ replicate m (T + 60000000000, ip)"
  shows "granted ip (snd (allow T ip (rl_new (int m)))) cs = length cs"
proof -
  define rl where "rl = snd (allow T ip (rl_new (int m)))"
  have rl: "rl_entry_of rl ip = \<lparr>window_start = T, rl_count = 1\<rparr>" "rl_max rl = int m"
    using assms by (simp_all add: rl_def allow_reset rl_new_def rl_entry_of_def rl_put_def)
  have burst: "granted ip r (replicate m (T + 60000000000, ip)) = m"
    if r: "rl_max r = int m" "window_start (rl_entry_of r ip) = T" for r
  proof -
    let ?r = "rl_put r ip \<lparr>window_start = T + 60000000000, rl_count = 1\<rparr>"
    obtain k where k: "m = Suc k" using assms(1) by (cases m) auto
    have "allow (T + 60000000000) ip r = (True, ?r)"
      using r assms(1) by (intro allow_reset) auto
    then show ?thesis
      using granted_replicate[of ?r "T + 60000000000" ip k "[]"] r k by auto
  qed
  have "granted ip rl cs = m - 1 + m"
    using granted_replicate[of rl "T + 59500000000" ip "m - 1" "replicate m (T + 60000000000, ip)"]
      rl assms(1) burst[of rl] burst by (auto simp: cs_def)
  then show ?thesis by (simp add: rl_def cs_def)
qed

theorem rl_two_bursts_witness:
  "granted ''ip'' (snd (allow 60000000000 ''ip'' (rl_new (int 3))))
     (replicate (3 - 1) (60000000000 + 59500000000, ''ip'')
      @ replicate 3 (60000000000 + 60000000000, ''ip''))
    = length (replicate (3 - 1) (60000000000 + 59500000000 :: int, ''ip'')
      @ replicate 3 (60000000000 + 60000000000, ''ip''))"
  by (rule rl_two_bursts) simp_all

text \<open>
  Addresses do not influence each other: the number of calls granted to an address in a run is
  the number granted when the calls of all others are left out.
\<close>

theorem rl_addresses_independent:
  "granted ip rl cs = granted ip rl (filter (\<lambda>(t, j). j = ip) cs)"
  by (rule granted_filter) simp_all

end
