(* ===== verification/Server.thy ===== *)
theory Server
  imports Wire Rate_Limiter
begin

text \<open>
  The class \<open>HttpServer\<close> of \<open>backend/src/server.hpp\<close> and \<open>server.cpp\<close>: its routes, the
  dispatch of a request, and the life of one connection.  The handlers of an application run over
  a state of type \<open>'db\<close> and read the wall clock; the rate limiter reads the monotonic clock.
\<close>

section \<open>Routes\<close>

type_synonym 'db handler = "int \<Rightarrow> http_request \<Rightarrow> 'db \<Rightarrow> http_response \<times> 'db"

record 'db route =
  route_method :: string
  route_pattern :: string
  route_handler :: "'db handler"

record 'db http_server =
  srv_port :: int
  srv_cors_origin :: string
  srv_routes :: "'db route list"
  srv_limiter :: rate_limiter

definition http_server_new :: "int \<Rightarrow> string \<Rightarrow> int \<Rightarrow> 'db http_server" where
  "http_server_new p cors rate =
     \<lparr>srv_port = p, srv_cors_origin = cors, srv_routes = [], srv_limiter = rl_new rate\<rparr>"

definition add_route :: "string \<Rightarrow> string \<Rightarrow> 'db handler \<Rightarrow> 'db http_server \<Rightarrow> 'db http_server" where
  "add_route m pat h srv = srv\<lparr>srv_routes := srv_routes srv
     @ [\<lparr>route_method = m, route_pattern = pat, route_handler = h\<rparr>]\<rparr>"

text \<open>The port that \<open>start\<close> binds: \<open>(uint16_t)port_\<close>.\<close>

definition listen_port :: "'db http_server \<Rightarrow> 16 word" where
  "listen_port srv = word_of_int (srv_port srv)"

section \<open>Dispatch\<close>

text \<open>
  The loop over \<open>routes_\<close>, with \<open>method_matched\<close> as its state: the first route whose pattern
  and method match handles the request.
\<close>

fun route_loop :: "'db route list \<Rightarrow> bool \<Rightarrow> 'db handler" where
  "route_loop [] method_matched now req db =
     ((if method_matched then resp_method_not_allowed else resp_not_found), db)"
| "route_loop (route # rest) method_matched now req db =
     (case match_pattern (route_pattern route) (req_path req) of
        None \<Rightarrow> route_loop rest method_matched now req db
      | Some params \<Rightarrow>
          if route_method route \<noteq> ''*'' \<and> route_method route \<noteq> req_method req
          then route_loop rest True now req db
          else route_handler route now (req\<lparr>req_params := params\<rparr>) db)"

text \<open>What follows the reading of the request: preflight, then routing.\<close>

definition respond :: "'db route list \<Rightarrow> 'db handler" where
  "respond rts now req db =
     (if req_method req = ''OPTIONS'' then (resp_no_content, db)
      else route_loop rts False now req db)"

text \<open>
  \<open>handle_connection\<close>: the bytes sent, the server (its limiter moves) and the state of the
  application.  A rejected connection is answered before anything is read.
\<close>

definition handle_connection ::
    "'db http_server \<Rightarrow> int \<Rightarrow> string \<Rightarrow> int \<Rightarrow> string list \<Rightarrow> 'db \<Rightarrow> string \<times> 'db http_server \<times> 'db" where
  "handle_connection srv ticks client_ip now bufs db =
     (case allow ticks client_ip (srv_limiter srv) of (permitted, rl') \<Rightarrow>
        let srv' = srv\<lparr>srv_limiter := rl'\<rparr>; cors = srv_cors_origin srv
        in if \<not> permitted then (build_response cors resp_too_many_requests, srv', db)
           else (case respond (srv_routes srv) now (read_and_parse bufs) db of
                   (resp, db') \<Rightarrow> (build_response cors resp, srv', db')))"

end
