(* ===== verification/Auth.thy ===== *)
theory Auth
  imports Utils
begin

text \<open>
  \<open>backend/src/auth.hpp\<close>: verification of the value of the \<open>Authorization\<close> header against the
  configured tokens.  The state of \<open>Auth\<close> is its token list, which never changes.
\<close>

definition verify :: "string list \<Rightarrow> string \<Rightarrow> bool" where
  "verify tokens header_value =
     (if header_value = [] then False
      else
        let token = (if to_lower (substr header_value 0 7) = ''bearer ''
                     then trim (substr_from header_value 7) else header_value)
        in token \<in> set tokens)"

definition auth_empty :: "string list \<Rightarrow> bool" where
  "auth_empty tokens \<longleftrightarrow> tokens = []"

lemma to_lower_length [simp]: "length (to_lower s) = length s"
  by (simp add: to_lower_def)

lemma verify_no_tokens [simp]: "\<not> verify [] h"
  by (simp add: verify_def)

lemma verify_bearer:
  assumes "to_lower pre = ''bearer ''"
  shows "verify tokens (pre @ t) \<longleftrightarrow> trim t \<in> set tokens"
proof -
  have "length pre = 7" using assms using to_lower_length[of pre] by simp
  then show ?thesis using assms by (auto simp: verify_def substr_def substr_from_def Let_def)
qed

lemma verify_raw:
  assumes "to_lower (take 7 h) \<noteq> ''bearer ''" "h \<noteq> []"
  shows "verify tokens h \<longleftrightarrow> h \<in> set tokens"
  using assms by (simp add: verify_def substr_def)

lemma verify_append: "verify (old @ new) h \<longleftrightarrow> verify old h \<or> verify new h"
  by (auto simp: verify_def Let_def)

text \<open>
  C30. The \<open>Bearer\<close> scheme is accepted in any letter case and with any white space around the
  token, and then the header is valid exactly when the token is configured; no other token will do.
\<close>

theorem verify_bearer_spec:
  assumes "to_lower pre = ''bearer ''" and "\<forall>c \<in> set a. is_ws c" and "\<forall>c \<in> set b. is_ws c"
    and "tok = [] \<or> \<not> is_ws (hd tok) \<and> \<not> is_ws (last tok)"
  shows "verify tokens (pre @ a @ tok @ b) \<longleftrightarrow> tok \<in> set tokens"
  using assms by (simp add: verify_bearer trim_pad trim_id)

theorem verify_bearer_spec_witness:
  "verify [''s3cret'', ''old''] (''BEARER '' @ '' '' @ ''s3cret'' @ []) \<longleftrightarrow> ''s3cret'' \<in> set [''s3cret'', ''old'']"
  by (rule verify_bearer_spec) (simp_all add: to_lower_def tolower_def chr_eq_iff is_ws_def)

end
