(* ===== verification/Store.thy ===== *)
theory Store
  imports Database
begin

text \<open>
  The contract of \<open>Database\<close> towards SQLite (locale \<open>sqlite_store\<close>) and towards its clients
  (locale \<open>store_machine\<close>): the methods refine the abstract store, whatever result codes SQLite
  returns.  The reference engine is the model on which both are interpreted.
\<close>

section \<open>What the SQL statements do\<close>

fun sql_effect :: "sql_stmt \<Rightarrow> store \<Rightarrow> store \<times> int" where
  "sql_effect (Insert_or_ignore f) s =
     (case s (frag_id f) of None \<Rightarrow> (s(frag_id f \<mapsto> f), 1) | Some _ \<Rightarrow> (s, 0))"
| "sql_effect (Delete_id i) s = (s(i := None), (if s i = None then 0 else 1))"
| "sql_effect (Delete_expired now) s =
     (store_purge now s, int (card {i. \<exists>f. s i = Some f \<and> expired now f}))"
| "sql_effect _ s = (s, 0)"

fun is_dml :: "sql_stmt \<Rightarrow> bool" where
  "is_dml (Insert_or_ignore f) = True"
| "is_dml (Delete_id i) = True"
| "is_dml (Delete_expired now) = True"
| "is_dml _ = False"

fun stmt_nul_free :: "sql_stmt \<Rightarrow> bool" where
  "stmt_nul_free (Insert_or_ignore f) = nul_free f"
| "stmt_nul_free _ = True"

fun selects :: "sql_stmt \<Rightarrow> fragment \<Rightarrow> bool" where
  "selects (Select_chat c since) f = in_chat c since f"
| "selects (Select_message m) f = in_message m f"
| "selects _ f = False"

definition sql_row_of :: "fragment \<Rightarrow> sql_row" where
  "sql_row_of f = Sql_row (Some (frag_id f)) (Some (message_id f)) (Some (chat_id f))
     (Some (sender_hash f)) (Some (payload f)) (timestamp f) (ttl f)"

lemma read_row_of: "nul_free f \<Longrightarrow> read_row (sql_row_of f) = f"
  by (simp add: sql_row_of_def col_text_def nul_free_def c_str_id)

lemma fetch_rows_of:
  "\<forall>f \<in> set fs. nul_free f \<Longrightarrow> fetch_rows (map (Row \<circ> sql_row_of) fs @ [Stop rc]) = fs"
  by (induction fs) (auto simp: read_row_of)

text \<open>
  SQLite's documented behaviour: a failed statement leaves the table as it was; a modifying
  statement that is done has had its effect, and the count of changed rows is that of the
  statement; a query delivers matching rows in the requested order and, when it ends with
  \<open>SQLITE_DONE\<close>, all of them.
\<close>

locale sqlite_store =
  fixes eng :: "'db sqlite" and tbl :: "'db \<Rightarrow> store" and ok :: "'db \<Rightarrow> bool"
  assumes ok_wf: "ok db \<Longrightarrow> store_wf (tbl db)"
    and step_ok: "ok db \<Longrightarrow> stmt_nul_free st \<Longrightarrow> ok (snd (sq_step eng st db))"
    and step_fail: "ok db \<Longrightarrow> is_dml st \<Longrightarrow> sq_step eng st db = (rc, db') \<Longrightarrow> rc \<noteq> SQLITE_DONE \<Longrightarrow>
      tbl db' = tbl db \<and> rc \<noteq> SQLITE_OK \<and> rc \<noteq> SQLITE_ROW"
    and step_done: "ok db \<Longrightarrow> is_dml st \<Longrightarrow> stmt_nul_free st \<Longrightarrow> sq_step eng st db = (SQLITE_DONE, db') \<Longrightarrow>
      (tbl db', sq_changes eng db') = sql_effect st (tbl db)"
    and query_rows: "ok db \<Longrightarrow> \<exists>fs rc. sq_query eng st db = map (Row \<circ> sql_row_of) fs @ [Stop rc]
      \<and> rc \<noteq> SQLITE_ROW \<and> distinct fs \<and> sorted (map timestamp fs)
      \<and> set fs \<subseteq> {f \<in> ran (tbl db). selects st f}
      \<and> (rc = SQLITE_DONE \<longrightarrow> answers (tbl db) (selects st) fs)"
    and count_rows: "ok db \<Longrightarrow> sq_count eng db = (SQLITE_ROW, n) \<Longrightarrow> n = int (card (dom (tbl db)))"

section \<open>The client side\<close>

datatype db_op = Op_insert fragment | Op_delete string | Op_purge int

fun store_apply :: "db_op \<Rightarrow> store \<Rightarrow> store" where
  "store_apply (Op_insert f) s = snd (store_insert (bind_fragment f) s)"
| "store_apply (Op_delete i) s = snd (store_delete (c_str i) s)"
| "store_apply (Op_purge now) s = store_purge now s"

fun db_apply :: "'db sqlite \<Rightarrow> db_op \<Rightarrow> 'db \<Rightarrow> 'db" where
  "db_apply eng (Op_insert f) db = snd (insert_fragment eng f db)"
| "db_apply eng (Op_delete i) db = snd (delete_fragment eng i db)"
| "db_apply eng (Op_purge now) db = snd (purge_expired eng now db)"

text \<open>Does the operation leave the fragment \<open>f\<close>, stored under \<open>i\<close>, alone?\<close>

fun spares :: "string \<Rightarrow> fragment \<Rightarrow> db_op \<Rightarrow> bool" where
  "spares i f (Op_insert g) = True"
| "spares i f (Op_delete j) = (c_str j \<noteq> i)"
| "spares i f (Op_purge now) = (\<not> expired now f)"

lemma store_apply_spares: "s i = Some f \<Longrightarrow> spares i f e \<Longrightarrow> store_apply e s i = Some f"
  by (cases e) (auto simp: store_insert_def store_delete_def store_purge_def split: option.splits)

lemma store_apply_origin:
  "store_apply e s i = Some f \<Longrightarrow> s i = Some f \<or> (\<exists>g. e = Op_insert g \<and> bind_fragment g = f)"
  by (cases e) (auto simp: store_insert_def store_delete_def store_purge_def split: option.splits if_splits)

lemma store_apply_free:
  "s i = None \<Longrightarrow> (\<And>g. e = Op_insert g \<Longrightarrow> c_str (frag_id g) \<noteq> i) \<Longrightarrow> store_apply e s i = None"
  by (cases e) (auto simp: store_insert_def store_delete_def store_purge_def split: option.splits)

lemma fold_store_free:
  "s i = None \<Longrightarrow> (\<And>g. Op_insert g \<in> set es \<Longrightarrow> c_str (frag_id g) \<noteq> i) \<Longrightarrow> fold store_apply es s i = None"
  by (induction es arbitrary: s) (auto simp: store_apply_free)

lemma fold_store_kept:
  "s i = Some f \<Longrightarrow> (\<And>e. e \<in> set es \<Longrightarrow> spares i f e) \<Longrightarrow> fold store_apply es s i = Some f"
  by (induction es arbitrary: s) (auto simp: store_apply_spares)

lemma fold_store_inserted:
  assumes "s i = None" "i = c_str (frag_id g)" "\<And>g'. Op_insert g' \<in> set es1 \<Longrightarrow> c_str (frag_id g') \<noteq> i"
    and "\<And>e. e \<in> set es2 \<Longrightarrow> spares i (bind_fragment g) e"
  shows "fold store_apply (es1 @ Op_insert g # es2) s i = Some (bind_fragment g)"
proof -
  have "fold store_apply es1 s i = None" by (rule fold_store_free) (use assms(1,3) in simp_all)
  then have "store_apply (Op_insert g) (fold store_apply es1 s) i = Some (bind_fragment g)"
    using assms(2) by (simp add: store_insert_def)
  then have "fold store_apply es2 (store_apply (Op_insert g) (fold store_apply es1 s)) i = Some (bind_fragment g)"
    by (rule fold_store_kept) (rule assms(4))
  then show ?thesis by simp
qed

text \<open>
  A machine whose operations each have at most one effect on the store (an operation that fails
  has none): the database methods are one, the request handlers of the server are another.
\<close>

locale store_machine =
  fixes run1 :: "'op \<Rightarrow> 'db \<Rightarrow> 'db" and tbl :: "'db \<Rightarrow> store" and ok :: "'db \<Rightarrow> bool"
    and effect :: "'op \<Rightarrow> db_op option"
  assumes run1_ok: "ok db \<Longrightarrow> ok (run1 op db)"
    and run1_effect: "ok db \<Longrightarrow> tbl (run1 op db) = tbl db
      \<or> (\<exists>e. effect op = Some e \<and> tbl (run1 op db) = store_apply e (tbl db))"
    and machine_wf: "ok db \<Longrightarrow> store_wf (tbl db)"
begin

lemma run_ok: "ok db \<Longrightarrow> ok (fold run1 ops db)"
  by (induction ops arbitrary: db) (auto simp: run1_ok)

lemma run_wf: "ok db \<Longrightarrow> store_wf (tbl (fold run1 ops db))"
  by (simp add: run_ok machine_wf)

lemma run_kept:
  assumes "ok db" "tbl db i = Some f" "\<forall>op \<in> set ops. \<forall>e. effect op = Some e \<longrightarrow> spares i f e"
  shows "tbl (fold run1 ops db) i = Some f"
  using assms
proof (induction ops arbitrary: db)
  case (Cons op ops)
  have "tbl (run1 op db) i = Some f"
    using run1_effect[OF Cons.prems(1), of op] Cons.prems(2,3) by (auto intro: store_apply_spares)
  then show ?case using Cons.IH[of "run1 op db"] Cons.prems run1_ok by simp
qed simp

lemma run_origin:
  assumes "ok db" "tbl (fold run1 ops db) i = Some f"
  shows "tbl db i = Some f \<or> (\<exists>op \<in> set ops. \<exists>g. effect op = Some (Op_insert g) \<and> bind_fragment g = f)"
  using assms
proof (induction ops arbitrary: db)
  case (Cons op ops)
  have "tbl (run1 op db) i = Some f
    \<or> (\<exists>op \<in> set ops. \<exists>g. effect op = Some (Op_insert g) \<and> bind_fragment g = f)"
    using Cons.IH[of "run1 op db"] Cons.prems run1_ok by simp
  then show ?case
    using run1_effect[OF Cons.prems(1), of op] by (auto dest!: store_apply_origin)
qed simp

end

section \<open>The methods refine the store\<close>

lemma check_rc_cases:
  "check_rc rc m = Inr () \<or> check_rc rc m = Inl (Runtime_error (''SQLite error ('' @ m @ ''): '' @ show_int rc))"
  by (auto simp: check_rc_def)

lemma check_rc_Inr: "check_rc rc m = Inr u \<longleftrightarrow> rc = SQLITE_OK \<or> rc = SQLITE_ROW \<or> rc = SQLITE_DONE"
  by (auto simp: check_rc_def)

context sqlite_store begin

lemma dml_done:
  assumes "ok db" "is_dml st" "stmt_nul_free st" "run_dml eng pm (Some sm) st db = (Inr n, db')"
  shows "(tbl db', n) = sql_effect st (tbl db) \<and> ok db'"
proof -
  obtain rc where s: "sq_step eng st db = (rc, db')" "n = sq_changes eng db'"
    "rc = SQLITE_OK \<or> rc = SQLITE_ROW \<or> rc = SQLITE_DONE"
    using assms(4) by (auto simp: run_dml_def check_rc_Inr split: sum.splits prod.splits)
  then have "rc = SQLITE_DONE" using step_fail[OF assms(1,2)] by blast
  then show ?thesis using s step_done[OF assms(1-3)] step_ok[OF assms(1,3)] by force
qed

lemma dml_error:
  assumes "ok db" "is_dml st" "stmt_nul_free st" "run_dml eng pm sm st db = (Inl e, db')"
  shows "tbl db' = tbl db \<and> ok db'"
proof (cases "check_rc (sq_prepare eng st db) pm")
  case Inl
  then show ?thesis using assms(1,4) by (simp add: run_dml_def)
next
  case Inr
  obtain rc where s: "sq_step eng st db = (rc, db')" "rc \<noteq> SQLITE_DONE"
    using assms(4) Inr
    by (auto simp: run_dml_def check_rc_def split: prod.splits option.splits if_splits)
  then show ?thesis using step_fail[OF assms(1,2)] step_ok[OF assms(1,3)] by force
qed

lemma insert_done:
  assumes "ok db" "insert_fragment eng f db = (Inr b, db')"
  shows "(b, tbl db') = store_insert (bind_fragment f) (tbl db)" "ok db'"
proof -
  obtain n where n: "run_dml eng ''prepare insert'' (Some ''step insert'')
      (Insert_or_ignore (bind_fragment f)) db = (Inr n, db')" "b = (0 < n)"
    using assms(2) by (auto simp: insert_fragment_def split: sum.splits prod.splits)
  have "(tbl db', n) = sql_effect (Insert_or_ignore (bind_fragment f)) (tbl db) \<and> ok db'"
    by (rule dml_done[OF assms(1) _ _ n(1)]) simp_all
  then show "(b, tbl db') = store_insert (bind_fragment f) (tbl db)" "ok db'"
    using n(2) by (auto simp: store_insert_def split: option.splits)
qed

lemma insert_error:
  assumes "ok db" "insert_fragment eng f db = (Inl e, db')"
  shows "tbl db' = tbl db" "ok db'"
  using assms dml_error[OF assms(1), of "Insert_or_ignore (bind_fragment f)"]
  by (auto simp: insert_fragment_def split: sum.splits prod.splits)

lemma delete_done:
  assumes "ok db" "delete_fragment eng i db = (Inr b, db')"
  shows "(b, tbl db') = store_delete (c_str i) (tbl db)" "ok db'"
proof -
  obtain n where n: "run_dml eng ''prepare delete'' (Some ''step delete'')
      (Delete_id (c_str i)) db = (Inr n, db')" "b = (0 < n)"
    using assms(2) by (auto simp: delete_fragment_def split: sum.splits prod.splits)
  have "(tbl db', n) = sql_effect (Delete_id (c_str i)) (tbl db) \<and> ok db'"
    by (rule dml_done[OF assms(1) _ _ n(1)]) simp_all
  then show "(b, tbl db') = store_delete (c_str i) (tbl db)" "ok db'"
    using n(2) by (auto simp: store_delete_def)
qed

lemma delete_error:
  assumes "ok db" "delete_fragment eng i db = (Inl e, db')"
  shows "tbl db' = tbl db" "ok db'"
  using assms dml_error[OF assms(1), of "Delete_id (c_str i)"]
  by (auto simp: delete_fragment_def split: sum.splits prod.splits)

lemma insert_changes:
  assumes "ok db" "insert_fragment eng f db = (Inr True, db')"
  shows "sq_changes eng db' = 1"
proof -
  obtain n where n: "run_dml eng ''prepare insert'' (Some ''step insert'')
      (Insert_or_ignore (bind_fragment f)) db = (Inr n, db')" "0 < n"
    using assms(2) by (auto simp: insert_fragment_def split: sum.splits prod.splits)
  have "(tbl db', n) = sql_effect (Insert_or_ignore (bind_fragment f)) (tbl db) \<and> ok db'"
    by (rule dml_done[OF assms(1) _ _ n(1)]) simp_all
  then have "n = 1" using n(2) by (auto split: option.splits)
  then show ?thesis using n(1) by (auto simp: run_dml_def split: sum.splits prod.splits)
qed

text \<open>A purge, by what SQLite returns.\<close>

lemma purge_cases:
  assumes "ok db" "sq_step eng (Delete_expired now) db = (rc, db1)"
  shows "\<not> sq_prepare eng (Delete_expired now) db \<in> {SQLITE_OK, SQLITE_ROW, SQLITE_DONE} \<Longrightarrow>
      isl (fst (purge_expired eng now db)) \<and> snd (purge_expired eng now db) = db"
    and "sq_prepare eng (Delete_expired now) db = SQLITE_OK \<Longrightarrow>
      purge_expired eng now db = (Inr (sq_changes eng db1), db1)"
    and "rc = SQLITE_DONE \<Longrightarrow> tbl db1 = store_purge now (tbl db)
      \<and> sq_changes eng db1 = int (card {i. \<exists>f. tbl db i = Some f \<and> expired now f})"
    and "rc \<noteq> SQLITE_DONE \<Longrightarrow> tbl db1 = tbl db"
  using assms step_done[OF assms(1), of "Delete_expired now" db1] step_fail[OF assms(1), of "Delete_expired now" rc db1]
  by (auto simp: purge_expired_def run_dml_def check_rc_def)

lemma purge_result:
  assumes "ok db" "purge_expired eng now db = (r, db')"
  shows "ok db'"
    and "tbl db' = tbl db \<or> tbl db' = store_purge now (tbl db)
      \<and> r = Inr (int (card {i. \<exists>f. tbl db i = Some f \<and> expired now f}))"
proof -
  have d: "is_dml (Delete_expired now)" "stmt_nul_free (Delete_expired now)" by simp_all
  show "ok db'"
    using assms step_ok[OF assms(1) d(2)]
    by (auto simp: purge_expired_def run_dml_def split: sum.splits prod.splits)
  show "tbl db' = tbl db \<or> tbl db' = store_purge now (tbl db)
      \<and> r = Inr (int (card {i. \<exists>f. tbl db i = Some f \<and> expired now f}))"
  proof (cases r)
    case (Inl e)
    then show ?thesis using dml_error[OF assms(1) d] assms(2) by (simp add: purge_expired_def)
  next
    case (Inr n)
    then obtain rc where s: "sq_step eng (Delete_expired now) db = (rc, db')" "n = sq_changes eng db'"
      using assms(2) by (auto simp: purge_expired_def run_dml_def split: sum.splits prod.splits)
    show ?thesis
      using Inr s step_fail[OF assms(1) d(1) s(1)] step_done[OF assms(1) d, of db']
      by (cases "rc = SQLITE_DONE") auto
  qed
qed

lemma query_fetch:
  assumes "ok db"
  shows "\<exists>rc. last (sq_query eng st db) = Stop rc
    \<and> set (fetch_rows (sq_query eng st db)) \<subseteq> {f \<in> ran (tbl db). selects st f}
    \<and> distinct (fetch_rows (sq_query eng st db))
    \<and> sorted (map timestamp (fetch_rows (sq_query eng st db)))
    \<and> (rc = SQLITE_DONE \<longrightarrow> answers (tbl db) (selects st) (fetch_rows (sq_query eng st db)))"
proof -
  obtain fs rc where q: "sq_query eng st db = map (Row \<circ> sql_row_of) fs @ [Stop rc]"
    "distinct fs" "sorted (map timestamp fs)" "set fs \<subseteq> {f \<in> ran (tbl db). selects st f}"
    "rc = SQLITE_DONE \<longrightarrow> answers (tbl db) (selects st) fs"
    using query_rows[OF assms] by blast
  have "\<forall>f \<in> set fs. nul_free f"
    using q(4) ok_wf[OF assms] by (auto simp: store_wf_def ran_def)
  then show ?thesis using q by (simp add: fetch_rows_of)
qed

end

text \<open>The methods as a store machine.\<close>

sublocale sqlite_store \<subseteq> methods: store_machine "db_apply eng" tbl ok Some
proof
  fix db op
  assume ok: "ok db"
  show "ok (db_apply eng op db)"
    by (cases op) (metis ok db_apply.simps insert_done(2) insert_error(2) delete_done(2) delete_error(2)
      purge_result(1) prod.collapse sumE)+
  show "tbl (db_apply eng op db) = tbl db
      \<or> (\<exists>e. Some op = Some e \<and> tbl (db_apply eng op db) = store_apply e (tbl db))"
  proof (cases op)
    case (Op_insert f)
    obtain r db' where r: "insert_fragment eng f db = (r, db')" by fastforce
    then show ?thesis using Op_insert insert_done(1)[OF ok] insert_error(1)[OF ok]
      by (cases r) (auto, metis snd_conv)
  next
    case (Op_delete i)
    obtain r db' where r: "delete_fragment eng i db = (r, db')" by fastforce
    then show ?thesis using Op_delete delete_done(1)[OF ok] delete_error(1)[OF ok]
      by (cases r) (auto, metis snd_conv)
  next
    case (Op_purge now)
    obtain r db' where r: "purge_expired eng now db = (r, db')" by fastforce
    then show ?thesis using Op_purge purge_result(2)[OF ok r] by auto
  qed
qed (rule ok_wf)

end
