(* ===== verification/Handlers.thy ===== *)
theory Handlers
  imports Server Json_Std Auth Store
begin

text \<open>
  \<open>backend/src/handlers.hpp\<close> and \<open>handlers.cpp\<close>: the application context and the five request
  handlers over the database, a state of type \<open>'db\<close> that is reached through the SQLite calls
  \<open>eng\<close>.  A handler catches every exception of the database and answers 500.
\<close>

section \<open>The context\<close>

record app_context =
  ctx_tokens :: "string list"
  max_payload_bytes :: nat
  start_time :: int

definition is_authorized :: "string list \<Rightarrow> http_request \<Rightarrow> bool" where
  "is_authorized tokens req = (case req_headers req ''authorization'' of
      None \<Rightarrow> False
    | Some v \<Rightarrow> verify tokens v)"

section \<open>The handlers\<close>

definition health_body :: "int \<Rightarrow> int \<Rightarrow> string" where
  "health_body uptime fcount =
     ''{'' @ quoted ''status'' @ '':'' @ quoted ''ok'' @ '',''
     @ quoted ''version'' @ '':'' @ quoted ''1.0.0'' @ '',''
     @ quoted ''uptime_sec'' @ '':'' @ show_int uptime @ '',''
     @ quoted ''fragment_count'' @ '':'' @ show_int fcount @ ''}''"

definition health_handler :: "'db sqlite \<Rightarrow> app_context \<Rightarrow> 'db handler" where
  "health_handler eng ctx now req db =
     (let uptime = now - start_time ctx;
          fcount = (case get_fragment_count eng db of Inl _ \<Rightarrow> 0 | Inr n \<Rightarrow> n)
      in (resp_ok (health_body uptime fcount), db))"

text \<open>The fragment that the fields of a body describe, before the server sets its time.\<close>

definition read_fragment :: "string \<Rightarrow> fragment" where
  "read_fragment body =
     \<lparr>frag_id = extract_string body ''id'',
      message_id = extract_string body ''message_id'',
      chat_id = extract_string body ''chat_id'',
      sender_hash = extract_string body ''sender_hash'',
      payload = extract_string body ''payload'',
      timestamp = 0,
      ttl = extract_int body ''ttl'' 0\<rparr>"

definition duplicate_body :: string where
  "duplicate_body = ''{'' @ quoted ''ok'' @ '':true,'' @ quoted ''duplicate'' @ '':true}''"

definition created_body :: "string \<Rightarrow> string" where
  "created_body i = ''{'' @ quoted ''ok'' @ '':true,'' @ quoted ''id'' @ '':'' @ quoted (json_escape i) @ ''}''"

text \<open>
  The handler of POST in its two halves, around the one call on the database: the checks, which give
  the response of a refusal or the fragment to insert, and the answer to the result of the insertion.
\<close>

definition post_checks :: "app_context \<Rightarrow> int \<Rightarrow> http_request \<Rightarrow> http_response + fragment" where
  "post_checks ctx now req =
     (if \<not> is_authorized (ctx_tokens ctx) req then Inl resp_unauthorized
      else if req_body req = [] then Inl (resp_bad_request ''empty body'')
      else if max_payload_bytes ctx < length (req_body req) then Inl resp_payload_too_large
      else
        let f = read_fragment (req_body req)
        in if frag_id f = [] then Inl (resp_bad_request ''missing id'')
           else if message_id f = [] then Inl (resp_bad_request ''missing message_id'')
           else if chat_id f = [] then Inl (resp_bad_request ''missing chat_id'')
           else if sender_hash f = [] then Inl (resp_bad_request ''missing sender_hash'')
           else if payload f = [] then Inl (resp_bad_request ''missing payload'')
           else Inr (f\<lparr>timestamp := now\<rparr>))"

fun post_answer :: "fragment \<Rightarrow> cxx_exception + bool \<Rightarrow> http_response" where
  "post_answer f (Inl e) = resp_server_error ''db error''"
| "post_answer f (Inr inserted) =
     (if \<not> inserted then resp_ok duplicate_body else resp_created (created_body (frag_id f)))"

definition post_fragment_handler :: "'db sqlite \<Rightarrow> app_context \<Rightarrow> 'db handler" where
  "post_fragment_handler eng ctx now req db =
     (case post_checks ctx now req of
        Inl resp \<Rightarrow> (resp, db)
      | Inr f \<Rightarrow> (case insert_fragment eng f db of (result, db') \<Rightarrow> (post_answer f result, db')))"

text \<open>The optional query parameter \<open>since\<close>; what is not a number counts as 0.\<close>

definition since_param :: "http_request \<Rightarrow> int" where
  "since_param req = (case req_query req ''since'' of
      None \<Rightarrow> 0
    | Some s \<Rightarrow> if s = [] then 0 else (case stoll s of Inl _ \<Rightarrow> 0 | Inr v \<Rightarrow> v))"

definition list_checks :: "app_context \<Rightarrow> http_request \<Rightarrow> http_response + string \<times> int" where
  "list_checks ctx req =
     (if \<not> is_authorized (ctx_tokens ctx) req then Inl resp_unauthorized
      else (case req_query req ''chat_id'' of
          None \<Rightarrow> Inl (resp_bad_request ''missing chat_id query param'')
        | Some c \<Rightarrow>
            if c = [] then Inl (resp_bad_request ''missing chat_id query param'')
            else Inr (c, since_param req)))"

definition message_checks :: "app_context \<Rightarrow> http_request \<Rightarrow> http_response + string" where
  "message_checks ctx req =
     (if \<not> is_authorized (ctx_tokens ctx) req then Inl resp_unauthorized
      else (case req_params req ''message_id'' of
          None \<Rightarrow> Inl (resp_bad_request ''missing message_id'')
        | Some m \<Rightarrow> if m = [] then Inl (resp_bad_request ''missing message_id'') else Inr m))"

fun query_answer :: "cxx_exception + fragment list \<Rightarrow> http_response" where
  "query_answer (Inl e) = resp_server_error ''db error''"
| "query_answer (Inr frags) = resp_ok (fragments_array frags)"

definition get_fragments_handler :: "'db sqlite \<Rightarrow> app_context \<Rightarrow> 'db handler" where
  "get_fragments_handler eng ctx now req db =
     (case list_checks ctx req of
        Inl resp \<Rightarrow> (resp, db)
      | Inr (c, since) \<Rightarrow> (query_answer (get_fragments eng c since db), db))"

definition get_message_fragments_handler :: "'db sqlite \<Rightarrow> app_context \<Rightarrow> 'db handler" where
  "get_message_fragments_handler eng ctx now req db =
     (case message_checks ctx req of
        Inl resp \<Rightarrow> (resp, db)
      | Inr m \<Rightarrow> (query_answer (get_message_fragments eng m db), db))"

definition delete_checks :: "app_context \<Rightarrow> http_request \<Rightarrow> http_response + string" where
  "delete_checks ctx req =
     (if \<not> is_authorized (ctx_tokens ctx) req then Inl resp_unauthorized
      else (case req_params req ''id'' of
          None \<Rightarrow> Inl (resp_bad_request ''missing id'')
        | Some i \<Rightarrow> if i = [] then Inl (resp_bad_request ''missing id'') else Inr i))"

fun delete_answer :: "cxx_exception + bool \<Rightarrow> http_response" where
  "delete_answer (Inl e) = resp_server_error ''db error''"
| "delete_answer (Inr deleted) = (if \<not> deleted then resp_not_found else resp_no_content)"

definition delete_fragment_handler :: "'db sqlite \<Rightarrow> app_context \<Rightarrow> 'db handler" where
  "delete_fragment_handler eng ctx now req db =
     (case delete_checks ctx req of
        Inl resp \<Rightarrow> (resp, db)
      | Inr i \<Rightarrow> (case delete_fragment eng i db of (result, db') \<Rightarrow> (delete_answer result, db')))"

section \<open>The routes\<close>

definition register_routes :: "'db sqlite \<Rightarrow> app_context \<Rightarrow> 'db http_server \<Rightarrow> 'db http_server" where
  "register_routes eng ctx srv =
     add_route ''DELETE'' ''/api/fragments/:id'' (delete_fragment_handler eng ctx)
     (add_route ''GET'' ''/api/fragments/:message_id/all'' (get_message_fragments_handler eng ctx)
     (add_route ''GET'' ''/api/fragments'' (get_fragments_handler eng ctx)
     (add_route ''POST'' ''/api/fragments'' (post_fragment_handler eng ctx)
     (add_route ''GET'' ''/health'' (health_handler eng ctx) srv))))"

section \<open>Guarded handlers\<close>

text \<open>
  The contract of the handlers under \<open>/api\<close>: without a valid token the answer is 401 and the
  state is untouched.
\<close>

locale guarded_handler =
  fixes h :: "'db handler" and tokens :: "string list"
  assumes guard: "\<not> is_authorized tokens req \<Longrightarrow> h now req db = (resp_unauthorized, db)"
begin

lemma rejects_missing: "req_headers req ''authorization'' = None \<Longrightarrow> h now req db = (resp_unauthorized, db)"
  by (rule guard) (simp add: is_authorized_def)

lemma rejects_all: "tokens = [] \<Longrightarrow> h now req db = (resp_unauthorized, db)"
  by (rule guard) (simp add: is_authorized_def split: option.splits)

lemma effect_authorized: "snd (h now req db) \<noteq> db \<Longrightarrow> is_authorized tokens req"
  using guard by fastforce

end

interpretation post_guard: guarded_handler "post_fragment_handler eng ctx" "ctx_tokens ctx"
  for eng :: "'db sqlite" and ctx
  by unfold_locales (simp add: post_fragment_handler_def post_checks_def)

interpretation list_guard: guarded_handler "get_fragments_handler eng ctx" "ctx_tokens ctx"
  for eng :: "'db sqlite" and ctx
  by unfold_locales (simp add: get_fragments_handler_def list_checks_def)

interpretation message_guard: guarded_handler "get_message_fragments_handler eng ctx" "ctx_tokens ctx"
  for eng :: "'db sqlite" and ctx
  by unfold_locales (simp add: get_message_fragments_handler_def message_checks_def)

interpretation delete_guard: guarded_handler "delete_fragment_handler eng ctx" "ctx_tokens ctx"
  for eng :: "'db sqlite" and ctx
  by unfold_locales (simp add: delete_fragment_handler_def delete_checks_def)

section \<open>Well-formed responses\<close>

lemma health_body_show:
  "health_body u n = js_show (J_object [(''status'', J_string ''ok''), (''version'', J_string ''1.0.0''),
     (''uptime_sec'', J_int u), (''fragment_count'', J_int n)])"
  by (simp add: health_body_def json_escape_char_def)

lemma duplicate_body_show:
  "duplicate_body = js_show (J_object [(''ok'', J_bool True), (''duplicate'', J_bool True)])"
  by (simp add: duplicate_body_def json_escape_char_def)

lemma created_body_show:
  "created_body i = js_show (J_object [(''ok'', J_bool True), (''id'', J_string i)])"
  by (simp add: created_body_def json_escape_char_def)

lemma error_body_show:
  "json_escape msg = msg \<Longrightarrow> error_body msg = js_show (J_object [(''error'', J_string msg)])"
  by (simp add: error_body_def json_escape_char_def quoted_def)

lemma parse_error_body:
  "json_escape msg = msg \<Longrightarrow> parse_json (error_body msg) = Some (J_object [(''error'', J_string msg)])"
  by (simp only: error_body_show parse_json_show)

text \<open>
  A response that cannot break the framing of its head, with a status that the server documents and a
  body that is JSON, or empty for 204.
\<close>

definition status_codes :: "int set" where
  "status_codes = {200, 201, 204, 400, 401, 404, 405, 413, 429, 500}"

definition resp_wf :: "http_response \<Rightarrow> bool" where
  "resp_wf r \<longleftrightarrow> CR \<notin> set (status_text r) \<and> CR \<notin> set (content_type r) \<and> status_code r \<in> status_codes
     \<and> (if status_code r = 204 then resp_body r = [] else parse_json (resp_body r) \<noteq> None)"

lemma resp_wf_json:
  "resp_wf (resp_ok (js_show v))" "resp_wf (resp_created (js_show v))"
  by (simp_all add: resp_wf_def response_defs status_codes_def parse_json_show)

lemma resp_wf_error:
  assumes "json_escape msg = msg"
  shows "resp_wf (resp_bad_request msg)" "resp_wf (resp_server_error msg)"
  using assms by (simp_all add: resp_wf_def response_defs status_codes_def parse_error_body)

lemma resp_wf_fixed [simp]:
  "resp_wf resp_no_content" "resp_wf resp_unauthorized" "resp_wf resp_not_found"
  "resp_wf resp_method_not_allowed" "resp_wf resp_payload_too_large" "resp_wf resp_too_many_requests"
  by (simp_all add: resp_wf_def response_defs status_codes_def parse_error_body json_escape_char_def)

locale responder =
  fixes h :: "'db handler"
  assumes wf: "resp_wf (fst (h now req db))"

lemma responder_loop:
  assumes "\<forall>r \<in> set rts. responder (route_handler r)"
  shows "responder (route_loop rts mm)"
proof
  fix now req db
  show "resp_wf (fst (route_loop rts mm now req db))"
    using assms
    by (induction rts mm now req db rule: route_loop.induct)
      (auto simp: responder_def split: option.splits)
qed

lemmas handler_resp = health_body_show duplicate_body_show created_body_show fragments_array_show
  resp_wf_json resp_wf_error json_escape_char_def

interpretation health_resp: responder "health_handler eng ctx" for eng :: "'db sqlite" and ctx
  by unfold_locales (simp add: health_handler_def health_body_show resp_wf_json del: js_show.simps)

lemma post_checks_wf: "post_checks ctx now req = Inl resp \<Longrightarrow> resp_wf resp"
  by (auto simp: post_checks_def Let_def handler_resp simp del: js_show.simps split: if_splits)

lemma post_answer_wf: "resp_wf (post_answer f result)"
  by (cases "(f, result)" rule: post_answer.cases) (simp_all add: handler_resp del: js_show.simps)

interpretation post_resp: responder "post_fragment_handler eng ctx" for eng :: "'db sqlite" and ctx
  by unfold_locales (auto simp: post_fragment_handler_def post_checks_wf post_answer_wf split: sum.splits prod.splits)

lemma query_answer_wf: "resp_wf (query_answer result)"
  by (cases result) (simp_all add: handler_resp del: js_show.simps)

interpretation list_resp: responder "get_fragments_handler eng ctx" for eng :: "'db sqlite" and ctx
  by unfold_locales (auto simp: get_fragments_handler_def list_checks_def query_answer_wf handler_resp
    split: option.splits sum.splits prod.splits if_splits)

interpretation message_resp: responder "get_message_fragments_handler eng ctx" for eng :: "'db sqlite" and ctx
  by unfold_locales (auto simp: get_message_fragments_handler_def message_checks_def query_answer_wf handler_resp
    split: option.splits sum.splits if_splits)

lemma delete_answer_wf: "resp_wf (delete_answer result)"
  by (cases result) (simp_all add: handler_resp)

interpretation delete_resp: responder "delete_fragment_handler eng ctx" for eng :: "'db sqlite" and ctx
  by unfold_locales (auto simp: delete_fragment_handler_def delete_checks_def delete_answer_wf handler_resp
    split: option.splits prod.splits sum.splits if_splits)

section \<open>POST and DELETE\<close>

text \<open>The checks of the POST handler, in its order.\<close>

definition post_valid :: "app_context \<Rightarrow> http_request \<Rightarrow> bool" where
  "post_valid ctx req \<longleftrightarrow>
     is_authorized (ctx_tokens ctx) req \<and> req_body req \<noteq> []
     \<and> length (req_body req) \<le> max_payload_bytes ctx
     \<and> (let f = read_fragment (req_body req)
        in frag_id f \<noteq> [] \<and> message_id f \<noteq> [] \<and> chat_id f \<noteq> [] \<and> sender_hash f \<noteq> [] \<and> payload f \<noteq> [])"

definition posted :: "int \<Rightarrow> http_request \<Rightarrow> fragment" where
  "posted now req = (read_fragment (req_body req))\<lparr>timestamp := now\<rparr>"

lemma post_checks_valid: "post_checks ctx now req = Inr f \<longleftrightarrow> post_valid ctx req \<and> f = posted now req"
  by (auto simp: post_checks_def post_valid_def posted_def Let_def)

lemma post_checks_invalid:
  "post_checks ctx now req = Inl resp \<Longrightarrow> \<not> post_valid ctx req \<and> status_code resp \<in> {400, 401, 413}"
  by (auto simp: post_checks_def post_valid_def response_defs Let_def split: if_splits)

lemma post_invalid:
  assumes "\<not> post_valid ctx req"
  shows "status_code (fst (post_fragment_handler eng ctx now req db)) \<in> {400, 401, 413}
    \<and> snd (post_fragment_handler eng ctx now req db) = db"
proof (cases "post_checks ctx now req")
  case (Inl resp)
  then show ?thesis using post_checks_invalid[OF Inl] by (simp add: post_fragment_handler_def)
next
  case (Inr f)
  then show ?thesis using assms by (simp add: post_checks_valid)
qed

lemma post_is_insert:
  assumes "post_valid ctx req"
  shows "post_fragment_handler eng ctx now req db =
    (case insert_fragment eng (posted now req) db of
       (Inl e, db') \<Rightarrow> (resp_server_error ''db error'', db')
     | (Inr True, db') \<Rightarrow> (resp_created (created_body (frag_id (posted now req))), db')
     | (Inr False, db') \<Rightarrow> (resp_ok duplicate_body, db'))"
proof -
  have "post_checks ctx now req = Inr (posted now req)" using assms by (simp add: post_checks_valid)
  then show ?thesis by (simp add: post_fragment_handler_def split: prod.split sum.split bool.split)
qed

lemma delete_checks_valid:
  "delete_checks ctx req = Inr i \<longleftrightarrow> is_authorized (ctx_tokens ctx) req \<and> req_params req ''id'' = Some i \<and> i \<noteq> []"
  by (auto simp: delete_checks_def split: option.splits)

lemma delete_is_delete:
  assumes "is_authorized (ctx_tokens ctx) req" "req_params req ''id'' = Some i" "i \<noteq> []"
  shows "delete_fragment_handler eng ctx now req db =
    (case delete_fragment eng i db of
       (Inl e, db') \<Rightarrow> (resp_server_error ''db error'', db')
     | (Inr deleted, db') \<Rightarrow> if \<not> deleted then (resp_not_found, db') else (resp_no_content, db'))"
proof -
  have "delete_checks ctx req = Inr i" using assms by (simp add: delete_checks_valid)
  then show ?thesis by (simp add: delete_fragment_handler_def split: prod.split sum.split)
qed

end
