(* ===== verification/App.thy ===== *)
theory App
  imports Handlers
begin

text \<open>
  The application that \<open>register_routes\<close> builds: which handler serves which request, the
  requests and purges as operations on the store of fragments, and the properties of the whole path
  from the bytes of a connection to the table.
\<close>

section \<open>Routing\<close>

datatype endpoint = Ep_health | Ep_post | Ep_list | Ep_message string | Ep_delete string
  | Ep_wrong_method | Ep_none

definition endpoint_of :: "string \<Rightarrow> string list \<Rightarrow> endpoint" where
  "endpoint_of m segs = (case segs of
      [r, a] \<Rightarrow>
        if [r, a] \<noteq> ['''', ''health''] then Ep_none
        else if m = ''GET'' then Ep_health else Ep_wrong_method
    | [r, a, b] \<Rightarrow>
        if [r, a, b] \<noteq> ['''', ''api'', ''fragments''] then Ep_none
        else if m = ''POST'' then Ep_post else if m = ''GET'' then Ep_list else Ep_wrong_method
    | [r, a, b, i] \<Rightarrow>
        if [r, a, b] \<noteq> ['''', ''api'', ''fragments''] then Ep_none
        else if m = ''DELETE'' then Ep_delete i else Ep_wrong_method
    | [r, a, b, i, l] \<Rightarrow>
        if [r, a, b, l] \<noteq> ['''', ''api'', ''fragments'', ''all''] then Ep_none
        else if m = ''GET'' then Ep_message i else Ep_wrong_method
    | _ \<Rightarrow> Ep_none)"

definition app_routes :: "'db sqlite \<Rightarrow> app_context \<Rightarrow> 'db route list" where
  "app_routes eng ctx = srv_routes (register_routes eng ctx (http_server_new 0 [] 0))"

lemma app_routes_list:
  "app_routes eng ctx =
    [\<lparr>route_method = ''GET'', route_pattern = ''/health'', route_handler = health_handler eng ctx\<rparr>,
     \<lparr>route_method = ''POST'', route_pattern = ''/api/fragments'', route_handler = post_fragment_handler eng ctx\<rparr>,
     \<lparr>route_method = ''GET'', route_pattern = ''/api/fragments'', route_handler = get_fragments_handler eng ctx\<rparr>,
     \<lparr>route_method = ''GET'', route_pattern = ''/api/fragments/:message_id/all'',
        route_handler = get_message_fragments_handler eng ctx\<rparr>,
     \<lparr>route_method = ''DELETE'', route_pattern = ''/api/fragments/:id'', route_handler = delete_fragment_handler eng ctx\<rparr>]"
  by (simp add: app_routes_def register_routes_def add_route_def http_server_new_def)

lemma split_patterns [route_simps]:
  "split ''/health'' (CHR ''/'') = ['''', ''health'']"
  "split ''/api/fragments'' (CHR ''/'') = ['''', ''api'', ''fragments'']"
  "split ''/api/fragments/:message_id/all'' (CHR ''/'') = ['''', ''api'', ''fragments'', '':message_id'', ''all'']"
  "split ''/api/fragments/:id'' (CHR ''/'') = ['''', ''api'', ''fragments'', '':id'']"
  by (simp_all add: split.simps)

lemma match_health [route_simps]:
  "match_pattern ''/health'' p =
    (case split p (CHR ''/'') of
       [r, a] \<Rightarrow> if [r, a] = ['''', ''health''] then Some Map.empty else None
     | _ \<Rightarrow> None)"
  by (auto simp: match_pattern_def split_patterns Let_def split: list.split)

lemma match_fragments [route_simps]:
  "match_pattern ''/api/fragments'' p =
    (case split p (CHR ''/'') of
       [r, a, b] \<Rightarrow> if [r, a, b] = ['''', ''api'', ''fragments''] then Some Map.empty else None
     | _ \<Rightarrow> None)"
  by (auto simp: match_pattern_def split_patterns Let_def split: list.split)

lemma match_message [route_simps]:
  "match_pattern ''/api/fragments/:message_id/all'' p =
    (case split p (CHR ''/'') of
       [r, a, b, m, l] \<Rightarrow> if [r, a, b, l] = ['''', ''api'', ''fragments'', ''all''] then Some [''message_id'' \<mapsto> m] else None
     | _ \<Rightarrow> None)"
  by (auto simp: match_pattern_def split_patterns Let_def length_Suc_conv split: list.split)

lemma match_delete [route_simps]:
  "match_pattern ''/api/fragments/:id'' p =
    (case split p (CHR ''/'') of
       [r, a, b, i] \<Rightarrow> if [r, a, b] = ['''', ''api'', ''fragments''] then Some [''id'' \<mapsto> i] else None
     | _ \<Rightarrow> None)"
  by (auto simp: match_pattern_def split_patterns Let_def length_Suc_conv split: list.split)

definition serve :: "'db sqlite \<Rightarrow> app_context \<Rightarrow> endpoint \<Rightarrow> 'db handler" where
  "serve eng ctx ep now req db = (case ep of
      Ep_health \<Rightarrow> health_handler eng ctx now (req\<lparr>req_params := Map.empty\<rparr>) db
    | Ep_post \<Rightarrow> post_fragment_handler eng ctx now (req\<lparr>req_params := Map.empty\<rparr>) db
    | Ep_list \<Rightarrow> get_fragments_handler eng ctx now (req\<lparr>req_params := Map.empty\<rparr>) db
    | Ep_message m \<Rightarrow> get_message_fragments_handler eng ctx now (req\<lparr>req_params := [''message_id'' \<mapsto> m]\<rparr>) db
    | Ep_delete i \<Rightarrow> delete_fragment_handler eng ctx now (req\<lparr>req_params := [''id'' \<mapsto> i]\<rparr>) db
    | Ep_wrong_method \<Rightarrow> (resp_method_not_allowed, db)
    | Ep_none \<Rightarrow> (resp_not_found, db))"

lemma short_list_cases:
  obtains "xs = []" | a where "xs = [a]" | a b where "xs = [a, b]" | a b c where "xs = [a, b, c]"
  | a b c d where "xs = [a, b, c, d]" | a b c d e where "xs = [a, b, c, d, e]"
  | a b c d e f zs where "xs = a # b # c # d # e # f # zs"
  by (metis list.exhaust)

lemma respond_serve:
  "respond (app_routes eng ctx) now req db =
    (if req_method req = ''OPTIONS'' then (resp_no_content, db)
     else serve eng ctx (endpoint_of (req_method req) (split (req_path req) (CHR ''/''))) now req db)"
  by (cases "split (req_path req) (CHR ''/'')" rule: short_list_cases)
    (simp_all add: respond_def app_routes_list route_simps serve_def endpoint_of_def del: split.simps)

section \<open>Effects\<close>

text \<open>The one method call on the database that a request makes, if it makes a modifying one.\<close>

definition request_effect :: "app_context \<Rightarrow> int \<Rightarrow> http_request \<Rightarrow> db_op option" where
  "request_effect ctx now req =
     (if req_method req = ''OPTIONS'' then None
      else (case endpoint_of (req_method req) (split (req_path req) (CHR ''/'')) of
          Ep_post \<Rightarrow> if post_valid ctx req then Some (Op_insert (posted now req)) else None
        | Ep_delete i \<Rightarrow>
            if is_authorized (ctx_tokens ctx) req \<and> i \<noteq> [] then Some (Op_delete i) else None
        | _ \<Rightarrow> None))"

lemma post_valid_params [simp]: "post_valid ctx (req\<lparr>req_params := p\<rparr>) = post_valid ctx req"
  by (simp add: post_valid_def is_authorized_def)

lemma posted_params [simp]: "posted now (req\<lparr>req_params := p\<rparr>) = posted now req"
  by (simp add: posted_def)

lemma is_authorized_params [simp]: "is_authorized tokens (req\<lparr>req_params := p\<rparr>) = is_authorized tokens req"
  by (simp add: is_authorized_def)

lemma post_snd:
  "snd (post_fragment_handler eng ctx now req db) =
    (if post_valid ctx req then db_apply eng (Op_insert (posted now req)) db else db)"
  using post_invalid[of ctx req eng now db]
  by (auto simp: post_is_insert split: prod.splits sum.splits bool.splits)

lemma delete_snd:
  "snd (delete_fragment_handler eng ctx now (req\<lparr>req_params := [''id'' \<mapsto> i]\<rparr>) db) =
    (if is_authorized (ctx_tokens ctx) req \<and> i \<noteq> [] then db_apply eng (Op_delete i) db else db)"
  by (simp add: delete_fragment_handler_def delete_checks_def split: prod.splits sum.splits)

lemma reads_snd [simp]:
  "snd (health_handler eng ctx now req db) = db"
  "snd (get_fragments_handler eng ctx now req db) = db"
  "snd (get_message_fragments_handler eng ctx now req db) = db"
  by (simp_all add: health_handler_def get_fragments_handler_def get_message_fragments_handler_def
    split: sum.splits prod.splits)

lemma respond_effect:
  "snd (respond (app_routes eng ctx) now req db)
    = (case request_effect ctx now req of None \<Rightarrow> db | Some e \<Rightarrow> db_apply eng e db)"
  by (auto simp: respond_serve request_effect_def serve_def post_snd delete_snd split: endpoint.split)

end
