(* ===== verification/Config.thy ===== *)
theory Config
  imports App
begin

text \<open>
  \<open>backend/src/main.cpp\<close>: the configuration with its defaults, the text scan that reads it from
  a JSON file, the command line, and how \<open>main\<close> puts the subsystems together.  A file is the
  text it holds, \<open>None\<close> when it cannot be opened.
\<close>

section \<open>Configuration\<close>

record config =
  cfg_port :: int
  cfg_tokens :: "string list"
  cfg_db_path :: string
  cfg_cors_origin :: string
  cfg_cleanup_interval :: int
  cfg_max_payload :: nat
  cfg_rate_limit :: int

definition default_config :: config where
  "default_config = \<lparr>cfg_port = 8080, cfg_tokens = [], cfg_db_path = ''frag.db'', cfg_cors_origin = ''*'',
     cfg_cleanup_interval = 3600, cfg_max_payload = 65536, cfg_rate_limit = 60\<rparr>"

text \<open>The text after the colon that follows the key, as the numeric members use it.\<close>

definition number_text :: "string \<Rightarrow> string \<Rightarrow> string option" where
  "number_text json key = (case str_find json (quoted key) 0 of
      None \<Rightarrow> None
    | Some pos \<Rightarrow> (case find_char json (CHR '':'') pos of
        None \<Rightarrow> None
      | Some colon \<Rightarrow> Some (substr_from json (colon + 1))))"

definition int_member :: "string \<Rightarrow> string \<Rightarrow> int \<Rightarrow> int" where
  "int_member json key old = (case number_text json key of
      None \<Rightarrow> old
    | Some s \<Rightarrow> (case stoi s of Inl _ \<Rightarrow> old | Inr v \<Rightarrow> v))"

definition size_member :: "string \<Rightarrow> string \<Rightarrow> nat \<Rightarrow> nat" where
  "size_member json key old = (case number_text json key of
      None \<Rightarrow> old
    | Some s \<Rightarrow> (case stoull s of Inl _ \<Rightarrow> old | Inr v \<Rightarrow> v))"

text \<open>
  The string members search for the colon without a check: \<open>npos + 1\<close> is 0, so without a colon
  the value is searched from the start of the file.
\<close>

definition string_member :: "string \<Rightarrow> string \<Rightarrow> string \<Rightarrow> string" where
  "string_member json key old = (case str_find json (quoted key) 0 of
      None \<Rightarrow> old
    | Some pos \<Rightarrow>
        let after_colon = (case find_char json (CHR '':'') pos of None \<Rightarrow> 0 | Some colon \<Rightarrow> colon + 1)
        in case find_char json DQ after_colon of
             None \<Rightarrow> old
           | Some qs \<Rightarrow> (case find_char json DQ (qs + 1) of
               None \<Rightarrow> old
             | Some qe \<Rightarrow> substr json (qs + 1) (qe - qs - 1)))"

text \<open>The end of a token: the next quote that no backslash precedes, or past the end.\<close>

function token_end :: "string \<Rightarrow> nat \<Rightarrow> nat" where
  "token_end arr qe =
     (if qe < length arr then
        if arr ! qe = BS then token_end arr (qe + 2)
        else if arr ! qe = DQ then qe
        else token_end arr (qe + 1)
      else qe)"
  by pat_completeness auto
termination
  by (relation "measure (\<lambda>(arr, qe). length arr - qe)") auto

declare token_end.simps [simp del]

lemma token_end_ge: "qe \<le> token_end arr qe"
  by (induction arr qe rule: token_end.induct) (subst token_end.simps, auto)

function token_loop :: "string \<Rightarrow> nat \<Rightarrow> string list" where
  "token_loop arr p =
     (if p < length arr then
        (case find_char arr DQ p of
           None \<Rightarrow> []
         | Some qs \<Rightarrow>
             let qe = token_end arr (qs + 1)
             in substr arr (qs + 1) (qe - qs - 1) # token_loop arr (qe + 1))
      else [])"
  by pat_completeness auto
termination
proof (relation "measure (\<lambda>(arr, p). length arr - p)")
  fix arr :: string and p qs x
  assume "p < length arr" "find_char arr DQ p = Some qs" "x = token_end arr (qs + 1)"
  then show "((arr, x + 1), arr, p) \<in> measure (\<lambda>(arr, p). length arr - p)"
    using str_find_bound[of arr "[DQ]" p qs] token_end_ge[of "qs + 1" arr] by (auto simp: find_char_def)
qed simp

declare token_loop.simps [simp del]

definition token_member :: "string \<Rightarrow> string list" where
  "token_member json = (case str_find json (quoted ''tokens'') 0 of
      None \<Rightarrow> []
    | Some pos \<Rightarrow> (case find_char json (CHR ''['') pos of
        None \<Rightarrow> []
      | Some op \<Rightarrow> (case find_char json (CHR '']'') op of
          None \<Rightarrow> []
        | Some cl \<Rightarrow> token_loop (substr json (op + 1) (cl - op - 1)) 0)))"

definition load_config :: "string option \<Rightarrow> config" where
  "load_config file = (case file of
      None \<Rightarrow> default_config
    | Some json \<Rightarrow>
        \<lparr>cfg_port = int_member json ''port'' (cfg_port default_config),
         cfg_tokens = cfg_tokens default_config @ token_member json,
         cfg_db_path = string_member json ''db_path'' (cfg_db_path default_config),
         cfg_cors_origin = string_member json ''cors_origin'' (cfg_cors_origin default_config),
         cfg_cleanup_interval = int_member json ''cleanup_interval_sec'' (cfg_cleanup_interval default_config),
         cfg_max_payload = size_member json ''max_payload_bytes'' (cfg_max_payload default_config),
         cfg_rate_limit = int_member json ''rate_limit_per_ip'' (cfg_rate_limit default_config)\<rparr>)"

section \<open>The command line\<close>

text \<open>The loop over \<open>argv[1..]\<close>: the path of the configuration, or \<open>None\<close> for the usage text.\<close>

fun parse_args :: "string \<Rightarrow> string list \<Rightarrow> string option" where
  "parse_args config_path [] = Some config_path"
| "parse_args config_path (arg # rest) =
     (if arg = ''-c'' \<or> arg = ''--config'' then
        (case rest of [] \<Rightarrow> Some config_path | v # rest' \<Rightarrow> parse_args v rest')
      else if arg = ''--help'' \<or> arg = ''-h'' then None
      else parse_args config_path rest)"

section \<open>Start-up and clean-up\<close>

datatype 'db main_result =
    Exit_code int
  | Started "'db http_server" app_context 'db

definition main_context :: "config \<Rightarrow> int \<Rightarrow> app_context" where
  "main_context cfg now =
     \<lparr>ctx_tokens = cfg_tokens cfg, max_payload_bytes = cfg_max_payload cfg, start_time = now\<rparr>"

definition main_server :: "'db sqlite \<Rightarrow> config \<Rightarrow> app_context \<Rightarrow> 'db http_server" where
  "main_server eng cfg ctx =
     register_routes eng ctx (http_server_new (cfg_port cfg) (cfg_cors_origin cfg) (cfg_rate_limit cfg))"

text \<open>\<open>files\<close> gives the contents of the files that can be opened.\<close>

definition read_file :: "(string \<Rightarrow> string option) \<Rightarrow> string \<Rightarrow> cxx_exception + string" where
  "read_file files path =
     (case files path of None \<Rightarrow> Inl (Runtime_error (''Cannot open file: '' @ path)) | Some json \<Rightarrow> Inr json)"

lemma read_file_option [simp]:
  "(case read_file files path of Inl _ \<Rightarrow> None | Inr json \<Rightarrow> Some json) = files path"
  by (simp add: read_file_def split: option.split)

definition main_setup ::
    "'db sqlite \<Rightarrow> (string \<Rightarrow> string option) \<Rightarrow> int \<Rightarrow> string list \<Rightarrow> 'db main_result" where
  "main_setup eng files now args =
     (case parse_args ''config.json'' args of
        None \<Rightarrow> Exit_code 0
      | Some path \<Rightarrow>
          let cfg = load_config (case read_file files path of Inl _ \<Rightarrow> None | Inr json \<Rightarrow> Some json)
          in case database_open eng (cfg_db_path cfg) of
               Inl e \<Rightarrow> Exit_code 1
             | Inr db \<Rightarrow>
                 let ctx = main_context cfg now in Started (main_server eng cfg ctx) ctx db)"

text \<open>
  The clean-up thread, one round for each element of the schedule: the stop flag when the loop tests
  it, the flag after the sleep, and the clock at the purge.  The second result is the log.
\<close>

fun cleanup_loop :: "'db sqlite \<Rightarrow> (bool \<times> bool \<times> int) list \<Rightarrow> 'db \<Rightarrow> 'db \<times> (cxx_exception + int) list" where
  "cleanup_loop eng [] db = (db, [])"
| "cleanup_loop eng ((stop1, stop2, now) # rounds) db =
     (if stop1 \<or> stop2 then (db, [])
      else
        let (r, db') = purge_expired eng now db;
            log = (case r of Inl e \<Rightarrow> [Inl e] | Inr n \<Rightarrow> if 0 < n then [Inr n] else []);
            (db'', logs) = cleanup_loop eng rounds db'
        in (db'', log @ logs))"

section \<open>Reading back a written configuration\<close>

definition nl :: "nat \<Rightarrow> string" where
  "nl n = LF # replicate n SP"

fun token_list :: "string list \<Rightarrow> string" where
  "token_list [] = []"
| "token_list [t] = nl 4 @ quoted t @ nl 2"
| "token_list (t # u # ts) = nl 4 @ quoted t @ '','' @ token_list (u # ts)"

text \<open>A configuration in the layout of \<open>backend/config.example.json\<close>.\<close>

definition config_text :: "config \<Rightarrow> string" where
  "config_text c = ''{'' @ nl 2
     @ quoted ''port'' @ '': '' @ show_int (cfg_port c) @ '','' @ nl 2
     @ quoted ''tokens'' @ '': ['' @ token_list (cfg_tokens c) @ ''],'' @ nl 2
     @ quoted ''db_path'' @ '': '' @ quoted (cfg_db_path c) @ '','' @ nl 2
     @ quoted ''cors_origin'' @ '': '' @ quoted (cfg_cors_origin c) @ '','' @ nl 2
     @ quoted ''cleanup_interval_sec'' @ '': '' @ show_int (cfg_cleanup_interval c) @ '','' @ nl 2
     @ quoted ''max_payload_bytes'' @ '': '' @ show_nat (cfg_max_payload c) @ '','' @ nl 2
     @ quoted ''rate_limit_per_ip'' @ '': '' @ show_int (cfg_rate_limit c) @ nl 0 @ ''}'' @ nl 0"

definition config_keys :: "string list" where
  "config_keys = [''port'', ''tokens'', ''db_path'', ''cors_origin'', ''cleanup_interval_sec'',
     ''max_payload_bytes'', ''rate_limit_per_ip'']"

definition config_string :: "string \<Rightarrow> bool" where
  "config_string s \<longleftrightarrow> DQ \<notin> set s \<and> s \<notin> set config_keys"

definition config_ok :: "config \<Rightarrow> bool" where
  "config_ok c \<longleftrightarrow> INT_MIN \<le> cfg_port c \<and> cfg_port c \<le> INT_MAX
     \<and> INT_MIN \<le> cfg_cleanup_interval c \<and> cfg_cleanup_interval c \<le> INT_MAX
     \<and> INT_MIN \<le> cfg_rate_limit c \<and> cfg_rate_limit c \<le> INT_MAX \<and> cfg_max_payload c < ULLONG_MOD
     \<and> config_string (cfg_db_path c) \<and> config_string (cfg_cors_origin c)
     \<and> (\<forall>t \<in> set (cfg_tokens c). config_string t \<and> BS \<notin> set t \<and> CHR '']'' \<notin> set t)"

text \<open>Scanning at a known place.\<close>

lemma find_quoted_at:
  assumes "DQ \<notin> set p0" "DQ \<notin> set k" "\<forall>p \<in> set ps. DQ \<notin> set p \<and> p \<noteq> k"
  shows "str_find (p0 @ dq_pieces ps @ quoted k @ t) (quoted k) 0 = Some (length p0 + length (dq_pieces ps))"
  using find_sub_skip[OF assms(1), of "k @ [DQ]"] find_quoted[OF assms(2,3)]
  by (simp add: str_find_0 quoted_def)

lemma number_text_at:
  assumes "DQ \<notin> set p0" "DQ \<notin> set k" "CHR '':'' \<notin> set k" "\<forall>p \<in> set ps. DQ \<notin> set p \<and> p \<noteq> k"
  shows "number_text (p0 @ dq_pieces ps @ quoted k @ CHR '':'' # t) k = Some t"
proof -
  let ?w = "p0 @ dq_pieces ps"
  have "find_char (?w @ quoted k @ CHR '':'' # t) (CHR '':'') (length ?w) = Some (length ?w + length (quoted k))"
    by (rule find_char_append) (use assms(3) in \<open>simp_all add: quoted_def\<close>)
  then show ?thesis
    using find_quoted_at[OF assms(1,2,4), of "CHR '':'' # t"] by (simp add: number_text_def substr_from_def)
qed

lemma string_member_eq:
  assumes "str_find json (quoted key) 0 = Some p" "find_char json (CHR '':'') p = Some c"
    "find_char json DQ (c + 1) = Some qs" "find_char json DQ (qs + 1) = Some qe"
    "substr json (qs + 1) (qe - qs - 1) = v"
  shows "string_member json key old = v"
  using assms by (simp add: string_member_def)

lemma string_member_at:
  assumes "DQ \<notin> set p0" "DQ \<notin> set k" "CHR '':'' \<notin> set k" "\<forall>p \<in> set ps. DQ \<notin> set p \<and> p \<noteq> k"
    and "DQ \<notin> set v"
  shows "string_member (p0 @ dq_pieces ps @ quoted k @ '': '' @ quoted v @ t) k old = v"
proof -
  let ?w = "p0 @ dq_pieces ps"
  let ?u = "?w @ quoted k @ '':''"
  let ?x = "?u @ '' '' @ [DQ]"
  have 1: "find_char (?w @ quoted k @ CHR '':'' # '' '' @ quoted v @ t) (CHR '':'') (length ?w)
      = Some (length ?w + length (quoted k))"
    by (rule find_char_append) (use assms(3) in \<open>simp_all add: quoted_def\<close>)
  have 2: "find_char (?u @ '' '' @ DQ # v @ DQ # t) DQ (length ?u) = Some (length ?u + 1)"
    using find_char_append[of DQ "'' ''" ?u "length ?u"] by simp
  have 3: "find_char (?x @ v @ DQ # t) DQ (length ?x) = Some (length ?x + length v)"
    by (rule find_char_append) (use assms(5) in simp_all)
  have 4: "substr (?x @ v @ DQ # t) (length ?x) (length v) = v"
    by (simp add: substr_def)
  show ?thesis
    by (rule string_member_eq[where p = "length ?w" and c = "length ?w + length (quoted k)"
        and qs = "length ?u + 1" and qe = "length ?x + length v"])
      (use find_quoted_at[OF assms(1,2,4), of "'': '' @ quoted v @ t"] 1 2 3 4 in \<open>simp_all add: quoted_def add.assoc\<close>)
qed

lemma token_end_at:
  "DQ \<notin> set v \<Longrightarrow> BS \<notin> set v \<Longrightarrow> token_end (w @ v @ DQ # t) (length w) = length w + length v"
proof (induction v arbitrary: w)
  case Nil
  then show ?case by (subst token_end.simps) (simp add: nth_append)
next
  case (Cons c v)
  have "token_end ((w @ [c]) @ v @ DQ # t) (length (w @ [c])) = length (w @ [c]) + length v"
    using Cons by (intro Cons.IH) auto
  then show ?case using Cons.prems by (subst token_end.simps) (auto simp: nth_append)
qed

lemma token_loop_step:
  assumes "DQ \<notin> set a" "DQ \<notin> set v" "BS \<notin> set v"
  shows "token_loop (w @ a @ quoted v @ t) (length w) = v # token_loop (w @ a @ quoted v @ t) (length (w @ a @ quoted v))"
proof -
  let ?s = "w @ a @ quoted v @ t"
  have 1: "find_char ?s DQ (length w) = Some (length w + length a)"
    using find_char_append[OF assms(1), of w "length w" "v @ DQ # t"] by (simp add: quoted_def)
  have 2: "token_end ?s (length w + length a + 1) = length w + length a + 1 + length v"
    using token_end_at[OF assms(2,3), of "w @ a @ [DQ]" t] by (simp add: quoted_def)
  have 3: "substr ?s (length w + length a + 1) (length v) = v"
    by (simp add: substr_def quoted_def)
  show ?thesis
    by (subst token_loop.simps) (use 1 2 3 in \<open>simp add: quoted_def add.assoc\<close>)
qed

lemma token_loop_end: "DQ \<notin> set a \<Longrightarrow> token_loop (w @ a) (length w) = []"
  by (subst token_loop.simps) (auto simp: find_char_def str_find_drop find_sub_char)

lemma nl_free [simp]: "DQ \<notin> set (nl n)" "CHR '']'' \<notin> set (nl n)" "CHR ''['' \<notin> set (nl n)" "nl n \<noteq> []"
  by (auto simp: nl_def)

lemma token_loop_list:
  "\<forall>t \<in> set ts. DQ \<notin> set t \<and> BS \<notin> set t \<Longrightarrow> DQ \<notin> set a \<Longrightarrow> token_loop (w @ a @ token_list ts) (length w) = ts"
proof (induction ts arbitrary: w a rule: token_list.induct)
  case 1
  then show ?case using token_loop_end[of a w] by simp
next
  case (2 t)
  then show ?case
    using token_loop_step[of "a @ nl 4" t w "nl 2"] token_loop_end[of "nl 2" "w @ (a @ nl 4) @ quoted t"] by simp
next
  case (3 t u ts)
  have "token_loop ((w @ (a @ nl 4) @ quoted t) @ '','' @ token_list (u # ts)) (length (w @ (a @ nl 4) @ quoted t)) = u # ts"
    using 3 by (intro "3.IH") auto
  then show ?case
    using 3 token_loop_step[of "a @ nl 4" t w "'','' @ token_list (u # ts)"] by simp
qed

lemma token_list_free: "\<forall>t \<in> set ts. CHR '']'' \<notin> set t \<Longrightarrow> CHR '']'' \<notin> set (token_list ts)"
  by (induction ts rule: token_list.induct) (auto simp: quoted_def)

text \<open>The scan takes what stands between the brackets, whatever it is.\<close>

lemma token_member_array:
  assumes "DQ \<notin> set p0" "\<forall>p \<in> set ps. DQ \<notin> set p \<and> p \<noteq> ''tokens''" "CHR '']'' \<notin> set arr"
  shows "token_member (p0 @ dq_pieces ps @ quoted ''tokens'' @ '': ['' @ arr @ CHR '']'' # t) = token_loop arr 0"
proof -
  let ?w = "p0 @ dq_pieces ps"
  let ?a = "quoted ''tokens'' @ '': ''"
  let ?s = "?w @ ?a @ CHR ''['' # arr @ CHR '']'' # t"
  have 0: "str_find ?s (quoted ''tokens'') 0 = Some (length ?w)"
    using find_quoted_at[OF assms(1) _ assms(2)] by simp
  have 1: "find_char ?s (CHR ''['') (length ?w) = Some (length ?w + length ?a)"
    by (rule find_char_append) (simp_all add: quoted_def)
  have "find_char ((?w @ ?a) @ (CHR ''['' # arr) @ CHR '']'' # t) (CHR '']'') (length (?w @ ?a))
      = Some (length (?w @ ?a) + length (CHR ''['' # arr))"
    by (rule find_char_append) (use assms(3) in auto)
  then have 2: "find_char ?s (CHR '']'') (length ?w + length ?a) = Some (length ?w + length ?a + 1 + length arr)"
    by (simp add: add.assoc)
  have 3: "substr ?s (length ?w + length ?a + 1) (length arr) = arr"
    by (simp add: substr_def)
  have "token_member ?s = token_loop arr 0"
    unfolding token_member_def 0 option.case 1 2 using 3 by simp
  then show ?thesis by simp
qed

lemma token_member_at:
  assumes "DQ \<notin> set p0" "\<forall>p \<in> set ps. DQ \<notin> set p \<and> p \<noteq> ''tokens''"
    and "\<forall>t \<in> set ts. DQ \<notin> set t \<and> BS \<notin> set t \<and> CHR '']'' \<notin> set t"
  shows "token_member (p0 @ dq_pieces ps @ quoted ''tokens'' @ '': ['' @ token_list ts @ CHR '']'' # t) = ts"
  using token_member_array[OF assms(1,2) token_list_free] token_loop_list[of ts "[]" "[]"] assms(3) by simp

text \<open>An array that ends within a token.\<close>

fun open_list :: "string list \<Rightarrow> string \<Rightarrow> string" where
  "open_list [] u = nl 4 @ DQ # u"
| "open_list (t # ts) u = nl 4 @ quoted t @ '','' @ open_list ts u"

lemma token_list_open:
  "\<exists>r. token_list (ts @ (u @ CHR '']'' # v) # ws) = open_list ts u @ CHR '']'' # r"
proof (induction ts)
  case Nil
  show ?case by (cases ws) (simp_all add: quoted_def)
next
  case (Cons t ts)
  then obtain r where "token_list (ts @ (u @ CHR '']'' # v) # ws) = open_list ts u @ CHR '']'' # r" by blast
  moreover have "token_list ((t # ts) @ (u @ CHR '']'' # v) # ws) = nl 4 @ quoted t @ '','' @ token_list (ts @ (u @ CHR '']'' # v) # ws)"
    by (cases ts) simp_all
  ultimately show ?case by simp
qed

lemma token_end_open: "DQ \<notin> set u \<Longrightarrow> BS \<notin> set u \<Longrightarrow> token_end (w @ u) (length w) = length w + length u"
proof (induction u arbitrary: w)
  case Nil
  then show ?case by (subst token_end.simps) simp
next
  case (Cons c u)
  have "token_end ((w @ [c]) @ u) (length (w @ [c])) = length (w @ [c]) + length u"
    using Cons by (intro Cons.IH) auto
  then show ?case using Cons.prems by (subst token_end.simps) (auto simp: nth_append)
qed

lemma token_loop_open:
  assumes "\<forall>t \<in> set (u # ts). DQ \<notin> set t \<and> BS \<notin> set t" "DQ \<notin> set a"
  shows "token_loop (w @ a @ open_list ts u) (length w) = ts @ [u]"
  using assms
proof (induction ts arbitrary: w a)
  case Nil
  let ?s = "w @ (a @ nl 4) @ DQ # u"
  have 1: "find_char ?s DQ (length w) = Some (length w + length (a @ nl 4))"
    by (rule find_char_append) (use Nil.prems in simp_all)
  have 2: "token_end ?s (length w + length (a @ nl 4) + 1) = length ?s"
    using token_end_open[of u "w @ (a @ nl 4) @ [DQ]"] Nil.prems by simp
  have 3: "substr ?s (length w + length (a @ nl 4) + 1) (length u) = u" by (simp add: substr_def)
  have 4: "token_loop ?s (length ?s + 1) = []" by (subst token_loop.simps) simp
  show ?case
    by (subst token_loop.simps) (use 1 2 3 4 in simp)
next
  case (Cons t ts)
  have "token_loop ((w @ (a @ nl 4) @ quoted t) @ '','' @ open_list ts u) (length (w @ (a @ nl 4) @ quoted t)) = ts @ [u]"
    using Cons.prems by (intro Cons.IH) auto
  then show ?case
    using Cons.prems token_loop_step[of "a @ nl 4" t w "'','' @ open_list ts u"] by simp
qed

lemma open_list_free: "\<forall>t \<in> set (u # ts). CHR '']'' \<notin> set t \<Longrightarrow> CHR '']'' \<notin> set (open_list ts u)"
  by (induction ts) (auto simp: quoted_def)

text \<open>The pieces of the text before each key.\<close>

fun token_pieces :: "string list \<Rightarrow> string list" where
  "token_pieces [] = []"
| "token_pieces [t] = [t, nl 2 @ ''],'' @ nl 2]"
| "token_pieces (t # u # ts) = t # ('','' @ nl 4) # token_pieces (u # ts)"

definition tokens_part :: "string list \<Rightarrow> string list" where
  "tokens_part ts = ''tokens'' #
     (if ts = [] then ['': [],'' @ nl 2] else ('': ['' @ nl 4) # token_pieces ts)"

definition string_part :: "string \<Rightarrow> string \<Rightarrow> string list" where
  "string_part k v = [k, '': '', v, '','' @ nl 2]"

definition int_part :: "string \<Rightarrow> int \<Rightarrow> string list" where
  "int_part k i = [k, '': '' @ show_int i @ '','' @ nl 2]"

lemma token_list_pieces:
  "ts \<noteq> [] \<Longrightarrow> '': ['' @ token_list ts @ ''],'' @ nl 2 = '': ['' @ nl 4 @ dq_pieces (token_pieces ts)"
proof -
  have "ts \<noteq> [] \<Longrightarrow> token_list ts @ ''],'' @ nl 2 = nl 4 @ dq_pieces (token_pieces ts)"
    by (induction ts rule: token_list.induct) (auto simp: quoted_def)
  then show "ts \<noteq> [] \<Longrightarrow> ?thesis" by simp
qed

lemma tokens_part_text: "quoted ''tokens'' @ '': ['' @ token_list ts @ ''],'' @ nl 2 = dq_pieces (tokens_part ts)"
  using token_list_pieces[of ts] by (cases ts) (simp_all add: tokens_part_def quoted_def)

lemma string_part_text: "quoted k @ '': '' @ quoted v @ '','' @ nl 2 = dq_pieces (string_part k v)"
  by (simp add: string_part_def quoted_def)

lemma int_part_text: "quoted k @ '': '' @ show_int i @ '','' @ nl 2 = dq_pieces (int_part k i)"
  by (simp add: int_part_def quoted_def)

lemma dq_pieces_append: "dq_pieces (ps @ qs) = dq_pieces ps @ dq_pieces qs"
  by (simp add: dq_pieces_def)

lemma config_text_parts:
  "config_text c = (''{'' @ nl 2) @ dq_pieces (int_part ''port'' (cfg_port c))
     @ dq_pieces (tokens_part (cfg_tokens c)) @ dq_pieces (string_part ''db_path'' (cfg_db_path c))
     @ dq_pieces (string_part ''cors_origin'' (cfg_cors_origin c))
     @ dq_pieces (int_part ''cleanup_interval_sec'' (cfg_cleanup_interval c))
     @ dq_pieces (int_part ''max_payload_bytes'' (int (cfg_max_payload c)))
     @ quoted ''rate_limit_per_ip'' @ '': '' @ show_int (cfg_rate_limit c) @ nl 0 @ ''}'' @ nl 0"
  unfolding config_text_def int_part_text[symmetric] tokens_part_text[symmetric] string_part_text[symmetric]
  by (simp add: show_int_def)

text \<open>Pieces that hold a byte no key holds cannot be taken for a key.\<close>

definition not_key :: "string \<Rightarrow> string \<Rightarrow> bool" where
  "not_key k p \<longleftrightarrow> DQ \<notin> set p \<and> p \<noteq> k"

lemma keys_like: "k \<in> set config_keys \<Longrightarrow> CHR '':'' \<notin> set k \<and> CHR '','' \<notin> set k \<and> DQ \<notin> set k"
  by (auto simp: config_keys_def)

lemma not_key_sep:
  "k \<in> set config_keys \<Longrightarrow> DQ \<notin> set p \<Longrightarrow> CHR '':'' \<in> set p \<or> CHR '','' \<in> set p \<Longrightarrow> not_key k p"
  using keys_like unfolding not_key_def by blast

lemma not_key_string: "k \<in> set config_keys \<Longrightarrow> config_string v \<Longrightarrow> not_key k v"
  unfolding config_string_def not_key_def by blast

lemma not_key_key: "k' \<in> set config_keys \<Longrightarrow> k' \<noteq> k \<Longrightarrow> not_key k k'"
  using keys_like unfolding not_key_def by blast

lemma token_pieces_ok:
  "\<forall>t \<in> set ts. config_string t \<Longrightarrow> k \<in> set config_keys \<Longrightarrow> \<forall>p \<in> set (token_pieces ts). not_key k p"
  by (induction ts rule: token_pieces.induct) (simp_all add: not_key_string not_key_sep)

lemma tokens_part_ok:
  "\<forall>t \<in> set ts. config_string t \<Longrightarrow> k \<in> set config_keys \<Longrightarrow> k \<noteq> ''tokens'' \<Longrightarrow>
    \<forall>p \<in> set (tokens_part ts). not_key k p"
  using token_pieces_ok[of ts k] not_key_key[of "''tokens''" k]
  by (simp add: tokens_part_def not_key_sep config_keys_def)

lemma string_part_ok:
  "config_string v \<Longrightarrow> k \<in> set config_keys \<Longrightarrow> k' \<in> set config_keys \<Longrightarrow> k' \<noteq> k \<Longrightarrow>
    \<forall>p \<in> set (string_part k' v). not_key k p"
  by (simp add: string_part_def not_key_sep not_key_string not_key_key)

lemma int_part_ok:
  "k \<in> set config_keys \<Longrightarrow> k' \<in> set config_keys \<Longrightarrow> k' \<noteq> k \<Longrightarrow> \<forall>p \<in> set (int_part k' i). not_key k p"
  by (simp add: int_part_def not_key_sep not_key_key show_int_no_DQ)


lemma SP_space: "isspace SP"
  by (simp add: isspace_def)

lemma int_member_at:
  assumes "json = p0 @ dq_pieces ps @ quoted k @ CHR '':'' # SP # show_int i @ r"
    and "DQ \<notin> set p0" "k \<in> set config_keys" "\<forall>p \<in> set ps. not_key k p"
    and "INT_MIN \<le> i" "i \<le> INT_MAX" "r = [] \<or> \<not> isdigit (hd r)"
  shows "int_member json k old = i"
  using number_text_at[of p0 k ps "SP # show_int i @ r"] keys_like[OF assms(3)] assms
    skip_space(2)[OF SP_space] stoi_show_int[OF assms(5-7)]
  by (simp add: int_member_def not_key_def)

lemma size_member_at:
  assumes "json = p0 @ dq_pieces ps @ quoted k @ CHR '':'' # SP # show_int (int n) @ r"
    and "DQ \<notin> set p0" "k \<in> set config_keys" "\<forall>p \<in> set ps. not_key k p"
    and "n < ULLONG_MOD" "r = [] \<or> \<not> isdigit (hd r)"
  shows "size_member json k old = n"
  using number_text_at[of p0 k ps "SP # show_nat n @ r"] keys_like[OF assms(3)] assms
    skip_space(3)[OF SP_space] stoull_show_nat[OF assms(5,6)]
  by (simp add: size_member_def not_key_def show_int_def)

lemma string_member_in:
  assumes "json = p0 @ dq_pieces ps @ quoted k @ CHR '':'' # SP # quoted v @ r"
    and "DQ \<notin> set p0" "k \<in> set config_keys" "\<forall>p \<in> set ps. not_key k p" "DQ \<notin> set v"
  shows "string_member json k old = v"
  using string_member_at[of p0 k ps v r old] keys_like[OF assms(3)] assms by (simp add: not_key_def)

lemma token_member_in:
  assumes "json = p0 @ dq_pieces ps @ quoted ''tokens'' @ '': ['' @ token_list ts @ CHR '']'' # r"
    and "DQ \<notin> set p0" "\<forall>p \<in> set ps. not_key ''tokens'' p"
    and "\<forall>t \<in> set ts. DQ \<notin> set t \<and> BS \<notin> set t \<and> CHR '']'' \<notin> set t"
  shows "token_member json = ts"
  using token_member_at[of p0 ps ts r] assms by (simp add: not_key_def)

abbreviation cfg_p1 :: "config \<Rightarrow> string list" where "cfg_p1 c \<equiv> int_part ''port'' (cfg_port c)"
abbreviation cfg_p2 :: "config \<Rightarrow> string list" where "cfg_p2 c \<equiv> tokens_part (cfg_tokens c)"
abbreviation cfg_p3 :: "config \<Rightarrow> string list" where "cfg_p3 c \<equiv> string_part ''db_path'' (cfg_db_path c)"
abbreviation cfg_p4 :: "config \<Rightarrow> string list" where "cfg_p4 c \<equiv> string_part ''cors_origin'' (cfg_cors_origin c)"
abbreviation cfg_p5 :: "config \<Rightarrow> string list" where "cfg_p5 c \<equiv> int_part ''cleanup_interval_sec'' (cfg_cleanup_interval c)"
abbreviation cfg_p6 :: "config \<Rightarrow> string list" where "cfg_p6 c \<equiv> int_part ''max_payload_bytes'' (int (cfg_max_payload c))"

lemma config_parts_free:
  assumes "config_ok c" "k \<in> set config_keys"
  shows "k \<noteq> ''port'' \<Longrightarrow> \<forall>p \<in> set (cfg_p1 c). not_key k p"
    and "k \<noteq> ''tokens'' \<Longrightarrow> \<forall>p \<in> set (cfg_p2 c). not_key k p"
    and "k \<noteq> ''db_path'' \<Longrightarrow> \<forall>p \<in> set (cfg_p3 c). not_key k p"
    and "k \<noteq> ''cors_origin'' \<Longrightarrow> \<forall>p \<in> set (cfg_p4 c). not_key k p"
    and "k \<noteq> ''cleanup_interval_sec'' \<Longrightarrow> \<forall>p \<in> set (cfg_p5 c). not_key k p"
    and "k \<noteq> ''max_payload_bytes'' \<Longrightarrow> \<forall>p \<in> set (cfg_p6 c). not_key k p"
  using assms
  by (intro int_part_ok tokens_part_ok string_part_ok; auto simp: config_ok_def config_keys_def)+

lemma config_key_members:
  "''port'' \<in> set config_keys" "''tokens'' \<in> set config_keys" "''db_path'' \<in> set config_keys"
  "''cors_origin'' \<in> set config_keys" "''cleanup_interval_sec'' \<in> set config_keys"
  "''max_payload_bytes'' \<in> set config_keys" "''rate_limit_per_ip'' \<in> set config_keys"
  by (simp_all add: config_keys_def)

lemma config_ok_ranges:
  assumes "config_ok c"
  shows "INT_MIN \<le> cfg_port c" "cfg_port c \<le> INT_MAX" "INT_MIN \<le> cfg_cleanup_interval c"
    "cfg_cleanup_interval c \<le> INT_MAX" "INT_MIN \<le> cfg_rate_limit c" "cfg_rate_limit c \<le> INT_MAX"
    "cfg_max_payload c < ULLONG_MOD" "DQ \<notin> set (cfg_db_path c)" "DQ \<notin> set (cfg_cors_origin c)"
    "\<forall>t \<in> set (cfg_tokens c). DQ \<notin> set t \<and> BS \<notin> set t \<and> CHR '']'' \<notin> set t"
  using assms by (auto simp: config_ok_def config_string_def)

text \<open>Where each member stands in the text of a configuration.\<close>

lemma config_layout:
  obtains r1 r2 r3 r4 r5 r6 r7 where
    "config_text c = (''{'' @ nl 2) @ dq_pieces [] @ quoted ''port'' @ CHR '':'' # SP # show_int (cfg_port c) @ '','' @ r1"
    "config_text c = (''{'' @ nl 2) @ dq_pieces (cfg_p1 c) @ quoted ''tokens'' @ '': ['' @ token_list (cfg_tokens c) @ CHR '']'' # r2"
    "config_text c = (''{'' @ nl 2) @ dq_pieces (cfg_p1 c @ cfg_p2 c) @ quoted ''db_path'' @ CHR '':'' # SP # quoted (cfg_db_path c) @ r3"
    "config_text c = (''{'' @ nl 2) @ dq_pieces (cfg_p1 c @ cfg_p2 c @ cfg_p3 c) @ quoted ''cors_origin'' @ CHR '':'' # SP
       # quoted (cfg_cors_origin c) @ r4"
    "config_text c = (''{'' @ nl 2) @ dq_pieces (cfg_p1 c @ cfg_p2 c @ cfg_p3 c @ cfg_p4 c) @ quoted ''cleanup_interval_sec''
       @ CHR '':'' # SP # show_int (cfg_cleanup_interval c) @ '','' @ r5"
    "config_text c = (''{'' @ nl 2) @ dq_pieces (cfg_p1 c @ cfg_p2 c @ cfg_p3 c @ cfg_p4 c @ cfg_p5 c) @ quoted ''max_payload_bytes''
       @ CHR '':'' # SP # show_int (int (cfg_max_payload c)) @ '','' @ r6"
    "config_text c = (''{'' @ nl 2) @ dq_pieces (cfg_p1 c @ cfg_p2 c @ cfg_p3 c @ cfg_p4 c @ cfg_p5 c @ cfg_p6 c)
       @ quoted ''rate_limit_per_ip'' @ CHR '':'' # SP # show_int (cfg_rate_limit c) @ nl 0 @ r7"
  unfolding config_text_parts dq_pieces_append
  by (simp add: int_part_text[of "''port''", symmetric] tokens_part_text[symmetric] string_part_text[of "''db_path''", symmetric]
    string_part_text[of "''cors_origin''", symmetric] int_part_text[of "''cleanup_interval_sec''", symmetric]
    int_part_text[of "''max_payload_bytes''", symmetric])

lemma config_roundtrip_members:
  fixes c :: config
  assumes "config_ok c"
  defines "json \<equiv> config_text c"
  shows "int_member json ''port'' old = cfg_port c"
    and "token_member json = cfg_tokens c"
    and "string_member json ''db_path'' olds = cfg_db_path c"
    and "string_member json ''cors_origin'' olds = cfg_cors_origin c"
    and "int_member json ''cleanup_interval_sec'' old = cfg_cleanup_interval c"
    and "size_member json ''max_payload_bytes'' oldn = cfg_max_payload c"
    and "int_member json ''rate_limit_per_ip'' old = cfg_rate_limit c"
proof -
  have p0: "DQ \<notin> set (''{'' @ nl 2)" by simp
  note side = config_parts_free[OF assms(1)] ball_Un config_key_members config_ok_ranges[OF assms(1)] isdigit_def nl_def
  show "int_member json ''port'' old = cfg_port c" "token_member json = cfg_tokens c"
    "string_member json ''db_path'' olds = cfg_db_path c" "string_member json ''cors_origin'' olds = cfg_cors_origin c"
    "int_member json ''cleanup_interval_sec'' old = cfg_cleanup_interval c"
    "size_member json ''max_payload_bytes'' oldn = cfg_max_payload c"
    "int_member json ''rate_limit_per_ip'' old = cfg_rate_limit c"
    unfolding json_def
    by (rule config_layout[of c], rule int_member_at[OF _ p0] token_member_in[OF _ p0] string_member_in[OF _ p0]
      size_member_at[OF _ p0], assumption, (simp add: side)+)+
qed


section \<open>Properties\<close>

lemma load_written: "config_ok c \<Longrightarrow> load_config (Some (config_text c)) = c"
  using config_roundtrip_members[of c] by (simp add: load_config_def default_config_def)

text \<open>
  C27. A configuration written in the layout of the example file is read back as it was written.
\<close>

theorem config_roundtrip:
  assumes "config_ok c"
  shows "load_config (Some (config_text c)) = c"
  using assms by (rule load_written)

text \<open>The example file of the repository.\<close>

definition example_config :: config where
  "example_config = \<lparr>cfg_port = 8080, cfg_tokens = [''change-me-to-a-long-random-secret-token''],
     cfg_db_path = ''frag.db'', cfg_cors_origin = ''*'', cfg_cleanup_interval = 3600,
     cfg_max_payload = 65536, cfg_rate_limit = 60\<rparr>"

theorem config_roundtrip_witness:
  "load_config (Some (config_text example_config)) = example_config"
  by (rule config_roundtrip)
    (simp add: config_ok_def example_config_def config_string_def config_keys_def INT_MIN_def INT_MAX_def ULLONG_MOD_def)

text \<open>
  C38. A closing bracket inside a token ends the token array, for every configuration: the tokens before it
  are read, then the part of the token before the bracket, and no further one.  So the truncated text is a
  valid token, and the configured token is refused.
\<close>

theorem bracket_truncates_token:
  assumes "cfg_tokens c = ts @ (u @ CHR '']'' # v) # ws"
    and "\<forall>t \<in> set (u # ts). DQ \<notin> set t \<and> BS \<notin> set t \<and> CHR '']'' \<notin> set t"
    and "trim u = u" "trim (u @ CHR '']'' # v) = u @ CHR '']'' # v"
  shows "cfg_tokens (load_config (Some (config_text c))) = ts @ [u]
    \<and> verify (cfg_tokens (load_config (Some (config_text c)))) (''Bearer '' @ u)
    \<and> \<not> verify (cfg_tokens (load_config (Some (config_text c)))) (''Bearer '' @ u @ CHR '']'' # v)"
proof -
  obtain r where r: "token_list (cfg_tokens c) = open_list ts u @ CHR '']'' # r"
    using token_list_open[of ts u v ws] assms(1) by auto
  obtain r2 where "config_text c = (''{'' @ nl 2) @ dq_pieces (cfg_p1 c) @ quoted ''tokens'' @ '': ['' @ token_list (cfg_tokens c)
      @ CHR '']'' # r2" by (rule config_layout[of c])
  then have layout: "config_text c = (''{'' @ nl 2) @ dq_pieces (cfg_p1 c) @ quoted ''tokens'' @ '': ['' @ open_list ts u
      @ CHR '']'' # (r @ CHR '']'' # r2)" by (simp add: r)
  have "\<forall>p \<in> set (cfg_p1 c). not_key ''tokens'' p" by (rule int_part_ok) (simp_all add: config_keys_def)
  then have "token_member (config_text c) = token_loop (open_list ts u) 0"
    unfolding layout by (intro token_member_array open_list_free) (use assms(2) in \<open>auto simp: not_key_def\<close>)
  also have "\<dots> = ts @ [u]" using token_loop_open[of u ts "[]" "[]"] assms(2) by simp
  finally have tokens: "cfg_tokens (load_config (Some (config_text c))) = ts @ [u]"
    by (simp add: load_config_def default_config_def)
  have pre: "to_lower ''Bearer '' = ''bearer ''" by (simp add: to_lower_def tolower_def chr_eq_iff)
  have "u @ CHR '']'' # v \<notin> set (ts @ [u])" using assms(2) by auto
  then show ?thesis unfolding tokens verify_bearer[OF pre] assms(3,4) by simp
qed

theorem bracket_truncates_token_witness:
  "cfg_tokens (load_config (Some (config_text (example_config\<lparr>cfg_tokens := [''ab]cd'', ''e'']\<rparr>)))) = [] @ [''ab'']"
  using bracket_truncates_token[of "example_config\<lparr>cfg_tokens := [''ab]cd'', ''e'']\<rparr>" "[]" "''ab''" "''cd''" "[''e'']"]
  by (simp add: trim_id is_ws_def)

end
