(* ===== verification/Client.thy ===== *)
theory Client
  imports App
begin

text \<open>
  A client of the API: the bytes of its requests, and what one connection that carries them does,
  from the received blocks to the table and the answer.
\<close>

section \<open>Bodies of posts\<close>

definition post_members :: "fragment \<Rightarrow> (string \<times> json_value) list" where
  "post_members f =
    [(''id'', Js_string (frag_id f)), (''message_id'', Js_string (message_id f)),
     (''chat_id'', Js_string (chat_id f)), (''sender_hash'', Js_string (sender_hash f)),
     (''payload'', Js_string (payload f)), (''ttl'', Js_int (ttl f))]"

definition post_body :: "fragment \<Rightarrow> string" where
  "post_body f = object_text (post_members f)"

definition filled :: "fragment \<Rightarrow> bool" where
  "filled f \<longleftrightarrow> frag_id f \<noteq> [] \<and> message_id f \<noteq> [] \<and> chat_id f \<noteq> [] \<and> sender_hash f \<noteq> [] \<and> payload f \<noteq> []"

lemma read_post_body:
  assumes "frag_scannable f"
  shows "read_fragment (post_body f) = f\<lparr>timestamp := 0\<rparr>"
proof -
  have ok: "\<forall>m \<in> set (post_members f). member_ok m" "distinct (map fst (post_members f))"
    using assms by (simp_all add: frag_scannable_def post_members_def)
  have mem: "(''id'', Js_string (frag_id f)) \<in> set (post_members f)"
    "(''message_id'', Js_string (message_id f)) \<in> set (post_members f)"
    "(''chat_id'', Js_string (chat_id f)) \<in> set (post_members f)"
    "(''sender_hash'', Js_string (sender_hash f)) \<in> set (post_members f)"
    "(''payload'', Js_string (payload f)) \<in> set (post_members f)"
    "(''ttl'', Js_int (ttl f)) \<in> set (post_members f)"
    by (simp_all add: post_members_def)
  have "int64_range (ttl f)" using assms by (simp add: frag_scannable_def)
  then show ?thesis
    by (simp add: read_fragment_def post_body_def extract_string_lookup[OF ok mem(1)]
      extract_string_lookup[OF ok mem(2)] extract_string_lookup[OF ok mem(3)]
      extract_string_lookup[OF ok mem(4)] extract_string_lookup[OF ok mem(5)]
      extract_int_lookup[OF ok mem(6)] frag_keys_def)
qed

lemma post_body_nonempty [simp]: "post_body f \<noteq> []"
  by (simp add: post_body_def object_text_def)

lemma post_valid_body:
  assumes "frag_scannable f" "filled f" "is_authorized (ctx_tokens ctx) req" "req_body req = post_body f"
    and "length (post_body f) \<le> max_payload_bytes ctx"
  shows "post_valid ctx req" "posted now req = f\<lparr>timestamp := now\<rparr>"
  using assms read_post_body[OF assms(1)] by (simp_all add: post_valid_def posted_def filled_def)

section \<open>Requests over a connection\<close>

lemma handle_permitted:
  assumes "fst (allow ticks ip (srv_limiter srv))"
    and "respond (srv_routes srv) now (read_and_parse bufs) db = (resp, db')"
  shows "handle_connection srv ticks ip now bufs db
    = (build_response (srv_cors_origin srv) resp,
       srv\<lparr>srv_limiter := snd (allow ticks ip (srv_limiter srv))\<rparr>, db')"
  using assms by (cases "allow ticks ip (srv_limiter srv)") (simp add: handle_connection_def Let_def)

lemma header_map_auth:
  "header_map [(''Authorization'', h), (''Content-Length'', n)] ''authorization'' = Some h"
  by (simp add: header_map_def to_lower_def tolower_def chr_eq_iff)

lemma auth_header_ok: "CR \<notin> set h \<Longrightarrow> trim h = h \<Longrightarrow> header_ok (''Authorization'', h)"
  by (simp add: header_ok_def trim_id is_ws_def)

lemma parse_authorized:
  assumes "SP \<notin> set m" "CR \<notin> set m" "CR \<notin> set h" "trim h = h"
    and "length (render_request m path q [(''Authorization'', h)] b) \<le> MAX_REQUEST_BYTES"
    and "[] \<notin> set bufs" "concat bufs = render_request m path q [(''Authorization'', h)] b"
  shows "read_and_parse bufs = parsed_request m path q [(''Authorization'', h)] b"
  using assms by (intro parse_rendered) (auto simp: auth_header_ok to_lower_def tolower_def chr_eq_iff)

lemma authorized_parsed:
  "verify tokens h \<Longrightarrow> is_authorized tokens (parsed_request m path q [(''Authorization'', h)] b)"
  by (simp add: is_authorized_def parsed_request_def header_map_auth)


lemma served_GET:
  "respond (app_routes eng ctx) now (parsed_request ''GET'' ''/api/fragments'' q hs b) db
    = get_fragments_handler eng ctx now (parsed_request ''GET'' ''/api/fragments'' q hs b) db"
  by (simp add: respond_serve parsed_request_def serve_def endpoint_of_def split_patterns)

lemma list_handler_eq:
  assumes "is_authorized (ctx_tokens ctx) req" "req_query req ''chat_id'' = Some c" "c \<noteq> []"
    and "sq_prepare eng (Select_chat (c_str c) (since_param req)) db = SQLITE_OK"
  shows "get_fragments_handler eng ctx now req db
    = (resp_ok (fragments_array (fetch_rows (sq_query eng (Select_chat (c_str c) (since_param req)) db))), db)"
  using assms by (simp add: get_fragments_handler_def list_checks_def get_fragments_def check_rc_def Let_def)

lemma since_rendered:
  "int64_range s \<Longrightarrow> req_query req ''since'' = Some (show_int s) \<Longrightarrow> since_param req = s"
  using show_int_hd[of s] stoll_show_int[of s "[]"] by (auto simp: since_param_def)

section \<open>What a client sends\<close>

text \<open>Bytes that arrive in non-empty blocks and fit into the limit of a request.\<close>

definition arrives :: "string list \<Rightarrow> string \<Rightarrow> bool" where
  "arrives bufs bytes \<longleftrightarrow> [] \<notin> set bufs \<and> concat bufs = bytes \<and> length bytes \<le> MAX_REQUEST_BYTES"

text \<open>A value of the Authorization field that the server accepts and that survives as a field.\<close>

definition valid_token :: "app_context \<Rightarrow> string \<Rightarrow> bool" where
  "valid_token ctx h \<longleftrightarrow> verify (ctx_tokens ctx) h \<and> CR \<notin> set h \<and> trim h = h"

definition postable :: "app_context \<Rightarrow> fragment \<Rightarrow> bool" where
  "postable ctx f \<longleftrightarrow> frag_scannable f \<and> filled f \<and> nul_free f \<and> length (post_body f) \<le> max_payload_bytes ctx"

definition pollable :: "string \<Rightarrow> int \<Rightarrow> bool" where
  "pollable c s \<longleftrightarrow> c \<noteq> [] \<and> NUL \<notin> set c \<and> int64_range s"

definition post_bytes :: "string \<Rightarrow> fragment \<Rightarrow> string" where
  "post_bytes h f = render_request ''POST'' ''/api/fragments'' [] [(''Authorization'', h)] (post_body f)"

definition poll_bytes :: "string \<Rightarrow> string \<Rightarrow> int \<Rightarrow> string" where
  "poll_bytes h c s = render_request ''GET'' ''/api/fragments'' [(''chat_id'', c), (''since'', show_int s)]
     [(''Authorization'', h)] []"

definition delete_bytes :: "string \<Rightarrow> string \<Rightarrow> string" where
  "delete_bytes h i = render_request ''DELETE'' (''/api/fragments/'' @ i) [] [(''Authorization'', h)] []"

definition message_bytes :: "string \<Rightarrow> string \<Rightarrow> string" where
  "message_bytes h m = render_request ''GET'' (''/api/fragments/'' @ m @ ''/all'') [] [(''Authorization'', h)] []"

text \<open>An id that can be named in a path: it is one segment.\<close>

definition deletable :: "string \<Rightarrow> bool" where
  "deletable i \<longleftrightarrow> i \<noteq> [] \<and> CHR ''/'' \<notin> set i \<and> NUL \<notin> set i"

lemma post_arrives:
  assumes "arrives bufs (post_bytes h f)" "valid_token ctx h"
  shows "read_and_parse bufs = parsed_request ''POST'' ''/api/fragments'' [] [(''Authorization'', h)] (post_body f)"
  using assms by (intro parse_authorized) (simp_all add: arrives_def post_bytes_def valid_token_def)

lemma poll_arrives:
  assumes "arrives bufs (poll_bytes h c s)" "valid_token ctx h"
  shows "read_and_parse bufs = parsed_request ''GET'' ''/api/fragments'' [(''chat_id'', c), (''since'', show_int s)]
    [(''Authorization'', h)] []"
  using assms by (intro parse_authorized) (simp_all add: arrives_def poll_bytes_def valid_token_def)

lemma delete_arrives:
  assumes "arrives bufs (delete_bytes h i)" "valid_token ctx h"
  shows "read_and_parse bufs = parsed_request ''DELETE'' (''/api/fragments/'' @ i) [] [(''Authorization'', h)] []"
  using assms by (intro parse_authorized) (simp_all add: arrives_def delete_bytes_def valid_token_def)

lemma message_arrives:
  assumes "arrives bufs (message_bytes h m)" "valid_token ctx h"
  shows "read_and_parse bufs = parsed_request ''GET'' (''/api/fragments/'' @ m @ ''/all'') [] [(''Authorization'', h)] []"
  using assms by (intro parse_authorized) (simp_all add: arrives_def message_bytes_def valid_token_def)

lemma token_authorized:
  "valid_token ctx h \<Longrightarrow> is_authorized (ctx_tokens ctx) (parsed_request m p q [(''Authorization'', h)] b)"
  by (simp add: valid_token_def authorized_parsed)

section \<open>What the connection does\<close>

lemma post_request:
  assumes "arrives bufs (post_bytes h f)" "valid_token ctx h" "postable ctx f"
  shows "post_valid ctx (read_and_parse bufs)" "posted now (read_and_parse bufs) = f\<lparr>timestamp := now\<rparr>"
proof -
  let ?req = "parsed_request ''POST'' ''/api/fragments'' [] [(''Authorization'', h)] (post_body f)"
  have "req_body ?req = post_body f" by (simp add: parsed_request_def)
  note valid = post_valid_body[OF _ _ token_authorized[OF assms(2)] this]
  show "post_valid ctx (read_and_parse bufs)" "posted now (read_and_parse bufs) = f\<lparr>timestamp := now\<rparr>"
    unfolding post_arrives[OF assms(1,2)] using assms(3) by (auto simp: postable_def intro: valid)
qed

lemma post_target:
  assumes "arrives bufs (post_bytes h f)" "valid_token ctx h"
  shows "req_method (read_and_parse bufs) = ''POST''" "req_path (read_and_parse bufs) = ''/api/fragments''"
  by (simp_all add: post_arrives[OF assms] parsed_request_def)

lemma post_effect:
  assumes "arrives bufs (post_bytes h f)" "valid_token ctx h" "postable ctx f"
  shows "request_effect ctx now (read_and_parse bufs) = Some (Op_insert (f\<lparr>timestamp := now\<rparr>))"
  by (simp add: request_effect_def post_target[OF assms(1,2)] split_patterns endpoint_of_def post_request[OF assms])

lemma post_served:
  assumes "arrives bufs (post_bytes h f)" "valid_token ctx h" "postable ctx f"
  shows "respond (app_routes eng ctx) now (read_and_parse bufs) db =
    (case insert_fragment eng (f\<lparr>timestamp := now\<rparr>) db of
       (Inl e, db') \<Rightarrow> (resp_server_error ''db error'', db')
     | (Inr True, db') \<Rightarrow> (resp_created (created_body (frag_id f)), db')
     | (Inr False, db') \<Rightarrow> (resp_ok duplicate_body, db'))"
  using post_request[OF assms]
  by (simp add: respond_serve serve_def post_target[OF assms(1,2)] split_patterns endpoint_of_def post_is_insert
    split: prod.split sum.split bool.split)

lemma poll_served:
  assumes "arrives bufs (poll_bytes h c s)" "valid_token ctx h" "pollable c s"
    and "sq_prepare eng (Select_chat c s) db = SQLITE_OK"
  shows "respond (app_routes eng ctx) now (read_and_parse bufs) db =
    (resp_ok (fragments_array (fetch_rows (sq_query eng (Select_chat c s) db))), db)"
proof -
  let ?req = "parsed_request ''GET'' ''/api/fragments'' [(''chat_id'', c), (''since'', show_int s)]
    [(''Authorization'', h)] []"
  have q: "req_query ?req ''chat_id'' = Some c" "req_query ?req ''since'' = Some (show_int s)"
    by (simp_all add: parsed_request_def)
  have c: "c_str c = c" "c \<noteq> []" and s: "since_param ?req = s"
    using assms(3) q(2) by (simp_all add: pollable_def c_str_id since_rendered)
  show ?thesis
    using list_handler_eq[OF token_authorized[OF assms(2)] q(1) c(2), of eng db now] assms(4)
    by (simp add: c s poll_arrives[OF assms(1,2)] served_GET)
qed

lemma split_id:
  assumes "deletable i"
  shows "split (''/api/fragments/'' @ i) (CHR ''/'') = ['''', ''api'', ''fragments'', i]"
  using split_join[of "['''', ''api'', ''fragments'', i]" "CHR ''/''"] assms by (simp add: deletable_def)

lemma delete_served:
  assumes "arrives bufs (delete_bytes h i)" "valid_token ctx h" "deletable i"
  shows "respond (app_routes eng ctx) now (read_and_parse bufs) db =
    (case delete_fragment eng i db of
       (Inl e, db') \<Rightarrow> (resp_server_error ''db error'', db')
     | (Inr deleted, db') \<Rightarrow> if \<not> deleted then (resp_not_found, db') else (resp_no_content, db'))"
proof -
  define req where "req = parsed_request ''DELETE'' (''/api/fragments/'' @ i) [] [(''Authorization'', h)] []"
  have req: "read_and_parse bufs = req" unfolding req_def by (rule delete_arrives[OF assms(1,2)])
  have m: "req_method req = ''DELETE''" and p: "split (req_path req) (CHR ''/'') = ['''', ''api'', ''fragments'', i]"
    using split_id[OF assms(3)] by (simp_all add: req_def parsed_request_def)
  have "endpoint_of (req_method req) (split (req_path req) (CHR ''/'')) = Ep_delete i"
    unfolding p by (simp add: m endpoint_of_def)
  moreover have "is_authorized (ctx_tokens ctx) req" unfolding req_def by (rule token_authorized[OF assms(2)])
  ultimately show ?thesis
    using assms(3) by (simp add: req m respond_serve serve_def delete_is_delete deletable_def)
qed

lemma split_message:
  assumes "deletable m"
  shows "split (''/api/fragments/'' @ m @ ''/all'') (CHR ''/'') = ['''', ''api'', ''fragments'', m, ''all'']"
  using split_join[of "['''', ''api'', ''fragments'', m, ''all'']" "CHR ''/''"] assms by (simp add: deletable_def)

lemma message_served:
  assumes "arrives bufs (message_bytes h m)" "valid_token ctx h" "deletable m"
    and "sq_prepare eng (Select_message m) db = SQLITE_OK"
  shows "respond (app_routes eng ctx) now (read_and_parse bufs) db =
    (resp_ok (fragments_array (fetch_rows (sq_query eng (Select_message m) db))), db)"
proof -
  define req where "req = parsed_request ''GET'' (''/api/fragments/'' @ m @ ''/all'') [] [(''Authorization'', h)] []"
  have req: "read_and_parse bufs = req" unfolding req_def by (rule message_arrives[OF assms(1,2)])
  have g: "req_method req = ''GET''" and p: "split (req_path req) (CHR ''/'') = ['''', ''api'', ''fragments'', m, ''all'']"
    using split_message[OF assms(3)] by (simp_all add: req_def parsed_request_def)
  have "endpoint_of (req_method req) (split (req_path req) (CHR ''/'')) = Ep_message m"
    unfolding p by (simp add: g endpoint_of_def)
  moreover have "is_authorized (ctx_tokens ctx) req" unfolding req_def by (rule token_authorized[OF assms(2)])
  ultimately show ?thesis
    using assms(3,4)
    by (simp add: req g respond_serve serve_def get_message_fragments_handler_def message_checks_def deletable_def
      get_message_fragments_def c_str_id check_rc_def Let_def)
qed

context sqlite_store begin

lemma post_stores:
  assumes "ok db" "srv_routes srv = app_routes eng ctx" "fst (allow ticks ip (srv_limiter srv))"
    and "arrives bufs (post_bytes h f)" "valid_token ctx h" "postable ctx f"
    and "tbl db (frag_id f) = None" "\<not> isl (fst (insert_fragment eng (f\<lparr>timestamp := now\<rparr>) db))"
  shows "handle_connection srv ticks ip now bufs db
      = (build_response (srv_cors_origin srv) (resp_created (created_body (frag_id f))),
         srv\<lparr>srv_limiter := snd (allow ticks ip (srv_limiter srv))\<rparr>,
         snd (insert_fragment eng (f\<lparr>timestamp := now\<rparr>) db))"
    and "ok (snd (insert_fragment eng (f\<lparr>timestamp := now\<rparr>) db))"
    and "tbl (snd (insert_fragment eng (f\<lparr>timestamp := now\<rparr>) db)) = (tbl db)(frag_id f \<mapsto> f\<lparr>timestamp := now\<rparr>)"
proof -
  let ?f = "f\<lparr>timestamp := now\<rparr>"
  have nf: "bind_fragment ?f = ?f"
    using assms(6) by (intro bind_nul_free) (simp add: postable_def nul_free_def)
  obtain b db' where ins: "insert_fragment eng ?f db = (Inr b, db')"
    using assms(8) by (cases "insert_fragment eng ?f db") (metis fst_conv isl_def sumE)
  have "(b, tbl db') = store_insert ?f (tbl db)" "ok db'"
    using insert_done[OF assms(1) ins] nf by simp_all
  then have b: b "tbl db' = (tbl db)(frag_id f \<mapsto> ?f)" "ok db'"
    using assms(7) by (simp_all add: store_insert_def)
  then have "respond (srv_routes srv) now (read_and_parse bufs) db = (resp_created (created_body (frag_id f)), db')"
    using ins by (simp add: assms(2) post_served[OF assms(4-6)])
  from handle_permitted[OF assms(3) this] show "handle_connection srv ticks ip now bufs db
      = (build_response (srv_cors_origin srv) (resp_created (created_body (frag_id f))),
         srv\<lparr>srv_limiter := snd (allow ticks ip (srv_limiter srv))\<rparr>, snd (insert_fragment eng ?f db))"
    using ins by simp
  show "ok (snd (insert_fragment eng ?f db))"
    "tbl (snd (insert_fragment eng ?f db)) = (tbl db)(frag_id f \<mapsto> ?f)"
    using ins b by simp_all
qed

lemma delete_removes:
  assumes "ok db" "srv_routes srv = app_routes eng ctx" "fst (allow ticks ip (srv_limiter srv))"
    and "arrives bufs (delete_bytes h i)" "valid_token ctx h" "deletable i"
    and "\<not> isl (fst (delete_fragment eng i db))"
  shows "handle_connection srv ticks ip now bufs db
      = (build_response (srv_cors_origin srv) (if tbl db i = None then resp_not_found else resp_no_content),
         srv\<lparr>srv_limiter := snd (allow ticks ip (srv_limiter srv))\<rparr>, snd (delete_fragment eng i db))"
    and "ok (snd (delete_fragment eng i db))"
    and "tbl (snd (delete_fragment eng i db)) = (tbl db)(i := None)"
proof -
  obtain b db' where del: "delete_fragment eng i db = (Inr b, db')"
    using assms(7) by (cases "delete_fragment eng i db") (metis fst_conv isl_def sumE)
  have "c_str i = i" using assms(6) by (simp add: deletable_def c_str_id)
  then have st: "(b, tbl db') = store_delete i (tbl db)" "ok db'"
    using delete_done[OF assms(1) del] by simp_all
  then have b: "b \<longleftrightarrow> tbl db i \<noteq> None" by (simp add: store_delete_def)
  show "handle_connection srv ticks ip now bufs db
      = (build_response (srv_cors_origin srv) (if tbl db i = None then resp_not_found else resp_no_content),
         srv\<lparr>srv_limiter := snd (allow ticks ip (srv_limiter srv))\<rparr>, snd (delete_fragment eng i db))"
    by (rule handle_permitted[OF assms(3)]) (simp add: assms(2) delete_served[OF assms(4-6)] del b)
  show "ok (snd (delete_fragment eng i db))" "tbl (snd (delete_fragment eng i db)) = (tbl db)(i := None)"
    using del st by (auto simp: store_delete_def)
qed

lemma poll_answers:
  assumes "ok db" "srv_routes srv = app_routes eng ctx" "fst (allow ticks ip (srv_limiter srv))"
    and "arrives bufs (poll_bytes h c s)" "valid_token ctx h" "pollable c s"
    and "sq_prepare eng (Select_chat c s) db = SQLITE_OK"
    and "last (sq_query eng (Select_chat c s) db) = Stop SQLITE_DONE"
  obtains frags where "handle_connection srv ticks ip now bufs db
      = (build_response (srv_cors_origin srv) (resp_ok (fragments_array frags)),
         srv\<lparr>srv_limiter := snd (allow ticks ip (srv_limiter srv))\<rparr>, db)"
    and "answers (tbl db) (in_chat c s) frags"
proof
  let ?frags = "fetch_rows (sq_query eng (Select_chat c s) db)"
  show "handle_connection srv ticks ip now bufs db
      = (build_response (srv_cors_origin srv) (resp_ok (fragments_array ?frags)),
         srv\<lparr>srv_limiter := snd (allow ticks ip (srv_limiter srv))\<rparr>, db)"
    by (rule handle_permitted[OF assms(3)]) (simp add: assms(2) poll_served[OF assms(4-7)])
  have "selects (Select_chat c s) = in_chat c s" by (simp add: fun_eq_iff)
  then show "answers (tbl db) (in_chat c s) ?frags"
    using query_fetch[OF assms(1), of "Select_chat c s"] assms(8) by auto
qed

lemma message_answers:
  assumes "ok db" "srv_routes srv = app_routes eng ctx" "fst (allow ticks ip (srv_limiter srv))"
    and "arrives bufs (message_bytes h m)" "valid_token ctx h" "deletable m"
    and "sq_prepare eng (Select_message m) db = SQLITE_OK"
    and "last (sq_query eng (Select_message m) db) = Stop SQLITE_DONE"
  obtains frags where "handle_connection srv ticks ip now bufs db
      = (build_response (srv_cors_origin srv) (resp_ok (fragments_array frags)),
         srv\<lparr>srv_limiter := snd (allow ticks ip (srv_limiter srv))\<rparr>, db)"
    and "answers (tbl db) (in_message m) frags"
proof
  let ?frags = "fetch_rows (sq_query eng (Select_message m) db)"
  show "handle_connection srv ticks ip now bufs db
      = (build_response (srv_cors_origin srv) (resp_ok (fragments_array ?frags)),
         srv\<lparr>srv_limiter := snd (allow ticks ip (srv_limiter srv))\<rparr>, db)"
    by (rule handle_permitted[OF assms(3)]) (simp add: assms(2) message_served[OF assms(4-7)])
  have "selects (Select_message m) = in_message m" by (simp add: fun_eq_iff)
  then show "answers (tbl db) (in_message m) ?frags"
    using query_fetch[OF assms(1), of "Select_message m"] assms(8) by auto
qed

text \<open>A query that SQLite ends after some rows, with whatever code, is answered with those rows.\<close>

lemma poll_broken:
  assumes "ok db" "srv_routes srv = app_routes eng ctx" "fst (allow ticks ip (srv_limiter srv))"
    and "arrives bufs (poll_bytes h c s)" "valid_token ctx h" "pollable c s"
    and "sq_prepare eng (Select_chat c s) db = SQLITE_OK"
    and "sq_query eng (Select_chat c s) db = map (Row \<circ> sql_row_of) fs @ [Stop rc]" "set fs \<subseteq> ran (tbl db)"
  shows "handle_connection srv ticks ip now bufs db
      = (build_response (srv_cors_origin srv) (resp_ok (fragments_array fs)),
         srv\<lparr>srv_limiter := snd (allow ticks ip (srv_limiter srv))\<rparr>, db)"
proof -
  have "\<forall>f \<in> set fs. nul_free f" using assms(9) ok_wf[OF assms(1)] by (auto simp: store_wf_def ran_def)
  then have "fetch_rows (sq_query eng (Select_chat c s) db) = fs" by (simp add: assms(8) fetch_rows_of)
  then show ?thesis by (intro handle_permitted[OF assms(3)]) (simp add: assms(2) poll_served[OF assms(4-7)])
qed

end

end
