(* ===== verification/Ref_Engine.thy ===== *)
theory Ref_Engine
  imports Store
begin

text \<open>
  A reference engine for the SQL statements of \<open>database.cpp\<close>: the table as the list of its rows
  in insertion order.  It can be told to fail: \<open>ref_faults\<close> holds the result codes of the next
  steps (a step for which it holds no error code succeeds), \<open>ref_prep_rc\<close> is the result of every
  prepare, and \<open>ref_cut\<close> breaks queries off after some rows with \<open>SQLITE_BUSY\<close>.  It shows
  that the hypotheses on SQLite can hold, with failures and without, and the witnesses evaluate on it.
\<close>

section \<open>The engine\<close>

record ref_db =
  ref_rows :: "fragment list"
  ref_changes :: int
  ref_faults :: "int list"
  ref_prep_rc :: int
  ref_cut :: "nat option"

definition ref_effect :: "sql_stmt \<Rightarrow> ref_db \<Rightarrow> ref_db" where
  "ref_effect st db =
     (let rows = ref_rows db;
          rows' = (case st of
              Insert_or_ignore f \<Rightarrow> if frag_id f \<in> set (map frag_id rows) then rows else rows @ [f]
            | Delete_id i \<Rightarrow> filter (\<lambda>f. frag_id f \<noteq> i) rows
            | Delete_expired now \<Rightarrow> filter (\<lambda>f. \<not> expired now f) rows
            | _ \<Rightarrow> rows)
      in db\<lparr>ref_rows := rows', ref_changes := \<bar>int (length rows') - int (length rows)\<bar>\<rparr>)"

definition is_error :: "int \<Rightarrow> bool" where
  "is_error rc \<longleftrightarrow> rc \<noteq> SQLITE_OK \<and> rc \<noteq> SQLITE_ROW \<and> rc \<noteq> SQLITE_DONE"

definition ref_step :: "sql_stmt \<Rightarrow> ref_db \<Rightarrow> int \<times> ref_db" where
  "ref_step st db =
     (case ref_faults db of
        [] \<Rightarrow> (SQLITE_DONE, ref_effect st db)
      | rc # rcs \<Rightarrow>
          if is_error rc then (rc, db\<lparr>ref_faults := rcs\<rparr>)
          else (SQLITE_DONE, ref_effect st (db\<lparr>ref_faults := rcs\<rparr>)))"

definition ref_query :: "sql_stmt \<Rightarrow> ref_db \<Rightarrow> step_result list" where
  "ref_query st db =
     (let fs = sort_key timestamp (filter (selects st) (ref_rows db))
      in case ref_cut db of
           None \<Rightarrow> map (Row \<circ> sql_row_of) fs @ [Stop SQLITE_DONE]
         | Some k \<Rightarrow> map (Row \<circ> sql_row_of) (take k fs) @ [Stop 5])"

definition ref_empty :: ref_db where
  "ref_empty = \<lparr>ref_rows = [], ref_changes = 0, ref_faults = [], ref_prep_rc = SQLITE_OK, ref_cut = None\<rparr>"

definition ref_engine :: "ref_db sqlite" where
  "ref_engine =
     \<lparr>sq_open = (\<lambda>path. (SQLITE_OK, ref_empty)),
      sq_exec = (\<lambda>sql db. (SQLITE_OK, None, db)),
      sq_prepare = (\<lambda>st db. ref_prep_rc db),
      sq_step = ref_step,
      sq_query = ref_query,
      sq_count = (\<lambda>db. (SQLITE_ROW, int (length (ref_rows db)))),
      sq_changes = ref_changes\<rparr>"

definition ref_tbl :: "ref_db \<Rightarrow> store" where
  "ref_tbl db = map_of (map (\<lambda>f. (frag_id f, f)) (ref_rows db))"

definition ref_ok :: "ref_db \<Rightarrow> bool" where
  "ref_ok db \<longleftrightarrow> distinct (map frag_id (ref_rows db)) \<and> (\<forall>f \<in> set (ref_rows db). nul_free f)"

section \<open>It behaves as documented\<close>

definition keyed :: "fragment list \<Rightarrow> store" where
  "keyed fs = map_of (map (\<lambda>f. (frag_id f, f)) fs)"

lemma keyed_Some: "distinct (map frag_id fs) \<Longrightarrow> keyed fs i = Some f \<longleftrightarrow> f \<in> set fs \<and> frag_id f = i"
  by (auto simp: keyed_def map_of_eq_Some_iff comp_def)

lemma keyed_None: "keyed fs i = None \<longleftrightarrow> i \<notin> frag_id ` set fs"
  by (induction fs) (auto simp: keyed_def)

lemma ran_keyed: "distinct (map frag_id fs) \<Longrightarrow> ran (keyed fs) = set fs"
  by (auto simp: ran_def keyed_Some)

lemma dom_keyed: "dom (keyed fs) = frag_id ` set fs"
  using keyed_None by (metis (no_types, lifting) domIff subsetI subset_antisym)

lemma finite_dom_keyed: "finite (dom (keyed fs))"
  by (simp add: dom_keyed)

lemma keyed_snoc:
  assumes "frag_id f \<notin> frag_id ` set fs"
  shows "keyed (fs @ [f]) = (keyed fs)(frag_id f \<mapsto> f)"
  using assms by (induction fs) (auto simp: keyed_def fun_eq_iff)

lemma keyed_filter:
  assumes "distinct (map frag_id fs)"
  shows "keyed (filter P fs) i = (case keyed fs i of None \<Rightarrow> None | Some f \<Rightarrow> if P f then Some f else None)"
proof (cases "keyed (filter P fs) i")
  case None
  then have "i \<notin> frag_id ` set (filter P fs)" by (simp add: keyed_None)
  then show ?thesis using None assms by (auto simp: keyed_Some split: option.splits)
next
  case (Some f)
  then have "f \<in> set fs" "P f" "frag_id f = i"
    using keyed_Some[OF distinct_map_filter[OF assms]] by auto
  then have "keyed fs i = Some f" using assms by (simp add: keyed_Some)
  then show ?thesis using Some \<open>P f\<close> by simp
qed

lemma keyed_delete:
  assumes "distinct (map frag_id fs)"
  shows "keyed (filter (\<lambda>f. frag_id f \<noteq> i) fs) = (keyed fs)(i := None)"
proof (rule ext)
  fix j
  show "keyed (filter (\<lambda>f. frag_id f \<noteq> i) fs) j = ((keyed fs)(i := None)) j"
  proof (cases "keyed fs j")
    case (Some f)
    then have "frag_id f = j" using keyed_Some[OF assms] by blast
    then show ?thesis using Some by (simp add: keyed_filter[OF assms])
  qed (simp add: keyed_filter[OF assms])
qed

lemma card_removed:
  assumes "distinct (map frag_id fs)"
  shows "int (card {i. \<exists>f. keyed fs i = Some f \<and> P f})
    = int (length fs) - int (length (filter (\<lambda>f. \<not> P f) fs))"
proof -
  have "{i. \<exists>f. keyed fs i = Some f \<and> P f} = set (map frag_id (filter P fs))"
    using assms by (auto simp: keyed_Some)
  then have "card {i. \<exists>f. keyed fs i = Some f \<and> P f} = length (filter P fs)"
    using distinct_card[OF distinct_map_filter[OF assms, of P]] by simp
  then show ?thesis using length_filter_split[of fs P] by simp
qed

lemma ref_tbl_keyed: "ref_tbl db = keyed (ref_rows db)"
  by (simp add: ref_tbl_def keyed_def)

lemma ref_effect_correct:
  assumes "ref_ok db" "is_dml st" "stmt_nul_free st"
  shows "(ref_tbl (ref_effect st db), ref_changes (ref_effect st db)) = sql_effect st (ref_tbl db)"
proof -
  have d: "distinct (map frag_id (ref_rows db))" using assms(1) by (simp add: ref_ok_def)
  show ?thesis
  proof (cases st)
    case (Insert_or_ignore f)
    then show ?thesis
      using keyed_None[of "ref_rows db" "frag_id f"]
      by (cases "keyed (ref_rows db) (frag_id f)") (simp_all add: ref_effect_def ref_tbl_keyed keyed_snoc)
  next
    case (Delete_id i)
    have "ref_tbl (ref_effect st db) = (ref_tbl db)(i := None)"
      using Delete_id by (simp add: ref_effect_def ref_tbl_keyed Let_def keyed_delete[OF d])
    moreover have "{j. \<exists>f. ref_tbl db j = Some f \<and> frag_id f = i} = (if ref_tbl db i = None then {} else {i})"
    proof -
      have "\<And>j f. ref_tbl db j = Some f \<Longrightarrow> frag_id f = j"
        unfolding ref_tbl_keyed using keyed_Some[OF d] by blast
      then show ?thesis by (cases "ref_tbl db i") auto
    qed
    then have "int (card {j. \<exists>f. ref_tbl db j = Some f \<and> frag_id f = i}) = (if ref_tbl db i = None then 0 else 1)"
      by simp
    ultimately show ?thesis
      using Delete_id card_removed[OF d, of "\<lambda>f. frag_id f = i"]
      by (simp add: ref_effect_def ref_tbl_keyed Let_def)
  next
    case (Delete_expired now)
    have "ref_tbl (ref_effect st db) = store_purge now (ref_tbl db)"
      using Delete_expired
      by (intro ext) (auto simp: ref_effect_def ref_tbl_keyed Let_def keyed_filter[OF d] store_purge_def split: option.splits)
    then show ?thesis
      using Delete_expired card_removed[OF d, of "expired now"]
      by (simp add: ref_effect_def ref_tbl_keyed Let_def)
  qed (use assms(2) in simp_all)
qed

lemma ref_effect_ok:
  assumes "ref_ok db" "stmt_nul_free st"
  shows "ref_ok (ref_effect st db)"
  using assms by (cases st) (auto simp: ref_ok_def ref_effect_def Let_def distinct_map_filter)

lemma ref_query_correct:
  assumes "ref_ok db"
  shows "\<exists>fs rc. ref_query st db = map (Row \<circ> sql_row_of) fs @ [Stop rc]
      \<and> rc \<noteq> SQLITE_ROW \<and> distinct fs \<and> sorted (map timestamp fs)
      \<and> set fs \<subseteq> {f \<in> ran (ref_tbl db). selects st f}
      \<and> (rc = SQLITE_DONE \<longrightarrow> answers (ref_tbl db) (selects st) fs)"
proof -
  let ?fs = "sort_key timestamp (filter (selects st) (ref_rows db))"
  have d: "distinct (map frag_id (ref_rows db))" using assms by (simp add: ref_ok_def)
  have 1: "distinct ?fs" "sorted (map timestamp ?fs)" "set ?fs = {f \<in> ran (ref_tbl db). selects st f}"
    using d by (auto simp: distinct_map ref_tbl_keyed ran_keyed)
  show ?thesis
  proof (cases "ref_cut db")
    case None
    then show ?thesis using 1
      by (intro exI[of _ ?fs] exI[of _ SQLITE_DONE]) (auto simp: ref_query_def answers_def sqlite_codes)
  next
    case (Some k)
    have "set (take k ?fs) \<subseteq> {f \<in> ran (ref_tbl db). selects st f}"
      using 1(3) set_take_subset[of k ?fs] by blast
    moreover have "sorted (map timestamp (take k ?fs))"
      using 1(2) by (simp add: take_map [symmetric] sorted_wrt_take)
    moreover have "distinct (take k ?fs)" using 1(1) by (rule distinct_take)
    moreover have "ref_query st db = map (Row \<circ> sql_row_of) (take k ?fs) @ [Stop 5]"
      using Some by (simp add: ref_query_def)
    moreover have "(5 :: int) \<noteq> SQLITE_ROW" "(5 :: int) \<noteq> SQLITE_DONE" by (simp_all add: sqlite_codes)
    ultimately show ?thesis by blast
  qed
qed

lemma ref_step_cases [consumes 1, case_names failed finished]:
  assumes "ref_step st db = (rc, db')"
  obtains "is_error rc" "ref_rows db' = ref_rows db"
    | db0 where "rc = SQLITE_DONE" "ref_rows db0 = ref_rows db" "db' = ref_effect st db0"
proof (cases "ref_faults db")
  case Nil
  with assms that(2)[of db] show ?thesis by (simp add: ref_step_def)
next
  case (Cons c cs)
  with assms that(1) that(2)[of "db\<lparr>ref_faults := cs\<rparr>"] show ?thesis
    by (auto simp: ref_step_def split: if_splits)
qed

lemma ref_step_ok:
  assumes "ref_step st db = (rc, db')" "ref_ok db" "stmt_nul_free st"
  shows "ref_ok db'"
  using assms(1)
proof (cases rule: ref_step_cases)
  case failed
  then show ?thesis using assms by (simp add: ref_ok_def)
next
  case (finished db0)
  then have "ref_ok db0" using assms by (simp add: ref_ok_def)
  then show ?thesis using assms(3) finished by (simp add: ref_effect_ok)
qed

lemma ref_step_failed:
  assumes "ref_step st db = (rc, db')" "rc \<noteq> SQLITE_DONE"
  shows "ref_tbl db' = ref_tbl db \<and> rc \<noteq> SQLITE_OK \<and> rc \<noteq> SQLITE_ROW"
  using assms(1)
proof (cases rule: ref_step_cases)
  case failed
  then show ?thesis by (simp add: is_error_def ref_tbl_def)
qed (use assms(2) in simp)

lemma ref_step_done:
  assumes "ref_ok db" "is_dml st" "stmt_nul_free st" "ref_step st db = (SQLITE_DONE, db')"
  shows "(ref_tbl db', ref_changes db') = sql_effect st (ref_tbl db)"
proof -
  obtain db0 where "ref_rows db0 = ref_rows db" "db' = ref_effect st db0"
    using assms(4) by (cases rule: ref_step_cases) (auto simp: is_error_def)
  moreover have "(ref_tbl (ref_effect st db0), ref_changes (ref_effect st db0)) = sql_effect st (ref_tbl db0)"
    using assms calculation(1) by (intro ref_effect_correct) (simp_all add: ref_ok_def)
  ultimately show ?thesis by (simp add: ref_tbl_def)
qed

interpretation ref: sqlite_store ref_engine ref_tbl ref_ok
proof
  fix db
  assume ok: "ref_ok db"
  then show "store_wf (ref_tbl db)"
    by (auto simp: store_wf_def ref_ok_def ref_tbl_keyed finite_dom_keyed keyed_Some)
  fix n
  assume "sq_count ref_engine db = (SQLITE_ROW, n)"
  moreover have "card (dom (ref_tbl db)) = length (ref_rows db)"
    using ok distinct_card[of "map frag_id (ref_rows db)"]
    by (simp add: ref_ok_def ref_tbl_keyed dom_keyed)
  ultimately show "n = int (card (dom (ref_tbl db)))" by (simp add: ref_engine_def)
next
  fix db st
  assume "ref_ok db" "stmt_nul_free st"
  then show "ref_ok (snd (sq_step ref_engine st db))"
    using ref_step_ok[of st db "fst (ref_step st db)" "snd (ref_step st db)"] by (simp add: ref_engine_def)
next
  fix db st rc db'
  assume "sq_step ref_engine st db = (rc, db')" "rc \<noteq> SQLITE_DONE"
  then show "ref_tbl db' = ref_tbl db \<and> rc \<noteq> SQLITE_OK \<and> rc \<noteq> SQLITE_ROW"
    using ref_step_failed[of st db rc db'] by (simp add: ref_engine_def)
next
  fix db st db'
  assume "ref_ok db" "is_dml st" "stmt_nul_free st" "sq_step ref_engine st db = (SQLITE_DONE, db')"
  then show "(ref_tbl db', sq_changes ref_engine db') = sql_effect st (ref_tbl db)"
    using ref_step_done[of db st db'] by (simp add: ref_engine_def)
qed (use ref_query_correct in \<open>simp add: ref_engine_def\<close>)

end
