(* ===== verification/App_Props.thy ===== *)
theory App_Props
  imports Client Ref_Engine
begin

text \<open>
  Properties of the whole application: what a request does to the table of fragments and what the
  client is told, from the handlers down to the bytes of a connection.  The witnesses run on the
  reference engine.
\<close>

section \<open>Sample data\<close>

definition sample_fragment :: fragment where
  "sample_fragment = \<lparr>frag_id = ''m-0'', message_id = ''m'', chat_id = ''c'', sender_hash = ''s'',
     payload = ''QUI='', timestamp = 1700000000, ttl = 60\<rparr>"

definition sample_db :: ref_db where
  "sample_db = ref_empty\<lparr>ref_rows := [sample_fragment]\<rparr>"

lemma sample_db_ok: "ref_ok sample_db" "ref_ok ref_empty"
  by (simp_all add: ref_ok_def sample_db_def ref_empty_def sample_fragment_def nul_free_def)

lemma sample_tbl: "ref_tbl sample_db = [''m-0'' \<mapsto> sample_fragment]" "ref_tbl ref_empty = Map.empty"
  by (simp_all add: ref_tbl_def sample_db_def sample_fragment_def ref_empty_def)

definition sample_ctx :: app_context where
  "sample_ctx = \<lparr>ctx_tokens = [''t''], max_payload_bytes = 1000, start_time = 0\<rparr>"

definition sample_post :: "http_request" where
  "sample_post = empty_request\<lparr>req_method := ''POST'', req_path := ''/api/fragments'',
     req_headers := [''authorization'' \<mapsto> ''t''],
     req_body := object_text [(''id'', Js_string ''m-0''), (''message_id'', Js_string ''m''),
       (''chat_id'', Js_string ''c''), (''sender_hash'', Js_string ''s''), (''payload'', Js_string ''QUI=''),
       (''ttl'', Js_int 60)]\<rparr>"

section \<open>Properties\<close>

text \<open>
  C19. Which request reaches which handler, and with which path parameter.
\<close>

theorem routing_table:
  "respond (app_routes eng ctx) now req db =
    (if req_method req = ''OPTIONS'' then (resp_no_content, db)
     else serve eng ctx (endpoint_of (req_method req) (split (req_path req) (CHR ''/''))) now req db)"
  by (rule respond_serve)

text \<open>
  C18. A request without a valid token has no effect and is answered with 200 (health), 204
  (preflight), 401, 404 or 405; with an empty token list every request to the API is answered 401.
\<close>

theorem unauthorized_no_effect:
  assumes "\<not> is_authorized (ctx_tokens ctx) req"
  shows "snd (respond (app_routes eng ctx) now req db) = db
    \<and> (case endpoint_of (req_method req) (split (req_path req) (CHR ''/'')) of
         Ep_health \<Rightarrow> True
       | Ep_wrong_method \<Rightarrow> fst (respond (app_routes eng ctx) now req db) \<in> {resp_no_content, resp_method_not_allowed}
       | Ep_none \<Rightarrow> fst (respond (app_routes eng ctx) now req db) \<in> {resp_no_content, resp_not_found}
       | _ \<Rightarrow> fst (respond (app_routes eng ctx) now req db) = resp_unauthorized)"
proof -
  have m: "req_method req \<noteq> ''OPTIONS''" if "endpoint_of (req_method req) segs \<notin> {Ep_none, Ep_wrong_method}" for segs
    using that by (auto simp: endpoint_of_def split: list.splits if_splits)
  have "\<not> is_authorized (ctx_tokens ctx) (req\<lparr>req_params := p\<rparr>)" for p
    using assms by simp
  note g = post_guard.guard[OF this] list_guard.guard[OF this] message_guard.guard[OF this]
    delete_guard.guard[OF this]
  show ?thesis
    using m[of "split (req_path req) (CHR ''/'')"]
    by (auto simp: respond_serve serve_def g split: endpoint.splits)
qed

theorem unauthorized_no_effect_witness:
  "fst (respond (app_routes ref_engine \<lparr>ctx_tokens = [], max_payload_bytes = 100, start_time = 0\<rparr>) 5
     (empty_request\<lparr>req_method := ''GET'', req_path := ''/api/fragments'',
        req_headers := [''authorization'' \<mapsto> ''Bearer ''], req_query := [''chat_id'' \<mapsto> ''c'']\<rparr>) sample_db)
    = resp_unauthorized"
  using unauthorized_no_effect[of "\<lparr>ctx_tokens = [], max_payload_bytes = 100, start_time = 0\<rparr>"
    "empty_request\<lparr>req_method := ''GET'', req_path := ''/api/fragments'',
        req_headers := [''authorization'' \<mapsto> ''Bearer ''], req_query := [''chat_id'' \<mapsto> ''c'']\<rparr>"
    ref_engine 5 sample_db]
  by (simp add: is_authorized_def split_patterns endpoint_of_def)


lemma post_result:
  assumes "sqlite_store eng tbl ok" "ok db" "post_valid ctx req"
    and "post_fragment_handler eng ctx now req db = (resp, db')"
  defines "f \<equiv> bind_fragment (posted now req)"
  shows "resp = resp_server_error ''db error'' \<and> tbl db' = tbl db
    \<or> resp = resp_created (created_body (frag_id (posted now req)))
        \<and> tbl db (frag_id f) = None \<and> tbl db' = (tbl db)(frag_id f \<mapsto> f)
    \<or> resp = resp_ok duplicate_body \<and> tbl db (frag_id f) \<noteq> None \<and> tbl db' = tbl db"
proof -
  obtain r where r: "insert_fragment eng (posted now req) db = (r, db')"
    using assms(4) by (auto simp: post_is_insert[OF assms(3)] split: prod.splits sum.splits bool.splits)
  show ?thesis
  proof (cases r)
    case (Inl e)
    then show ?thesis
      using assms(4) r sqlite_store.insert_error(1)[OF assms(1,2)] by (simp add: post_is_insert[OF assms(3)])
  next
    case (Inr b)
    then have "(b, tbl db') = store_insert f (tbl db)"
      unfolding f_def using r sqlite_store.insert_done(1)[OF assms(1,2)] by simp
    then show ?thesis
      using assms(4) r Inr
      by (auto simp: post_is_insert[OF assms(3)] store_insert_def split: bool.splits option.splits)
  qed
qed

text \<open>
  C21. A valid POST either fails as a whole (500, table unchanged), or stores the fragment under its
  id when the id is free (201), or leaves the table alone when it is taken (200, duplicate).
\<close>

theorem post_refines:
  assumes "sqlite_store eng tbl ok" "ok db" "post_valid ctx req"
    and "post_fragment_handler eng ctx now req db = (resp, db')"
  defines "f \<equiv> bind_fragment (posted now req)"
  shows "resp = resp_server_error ''db error'' \<and> tbl db' = tbl db
    \<or> resp = resp_created (created_body (frag_id (posted now req)))
        \<and> tbl db (frag_id f) = None \<and> tbl db' = (tbl db)(frag_id f \<mapsto> f)
    \<or> resp = resp_ok duplicate_body \<and> tbl db (frag_id f) \<noteq> None \<and> tbl db' = tbl db"
  unfolding f_def using assms(1-4) by (rule post_result)

text \<open>
  C2. From the bytes of a connection to the table: a client's POST of a fragment, in whatever
  blocks it arrives, is answered 201 and stores the fragment with the server's time, when the
  limiter permits, the token is valid, the id is free and the insertion raises no error.
\<close>

theorem post_over_the_wire:
  assumes "sqlite_store eng tbl ok" "ok db" "srv_routes srv = app_routes eng ctx"
    and "fst (allow ticks ip (srv_limiter srv))"
    and "arrives bufs (post_bytes h f)" "valid_token ctx h" "postable ctx f"
    and "tbl db (frag_id f) = None" "\<not> isl (fst (insert_fragment eng (f\<lparr>timestamp := now\<rparr>) db))"
  shows "\<exists>srv' db'. handle_connection srv ticks ip now bufs db
      = (build_response (srv_cors_origin srv) (resp_created (created_body (frag_id f))), srv', db')
    \<and> ok db' \<and> tbl db' = (tbl db)(frag_id f \<mapsto> f\<lparr>timestamp := now\<rparr>)"
  using sqlite_store.post_stores[OF assms] by blast

text \<open>
  C5. And for the deletion: when SQLite raises no error, exactly the fragment that the path names is
  gone afterwards; the answer is 204 when it was there and 404 when it was not.
\<close>

theorem delete_over_the_wire:
  assumes "sqlite_store eng tbl ok" "ok db" "srv_routes srv = app_routes eng ctx"
    and "fst (allow ticks ip (srv_limiter srv))"
    and "arrives bufs (delete_bytes h i)" "valid_token ctx h" "deletable i"
    and "\<not> isl (fst (delete_fragment eng i db))"
  shows "\<exists>srv' db'. handle_connection srv ticks ip now bufs db
      = (build_response (srv_cors_origin srv) (if tbl db i = None then resp_not_found else resp_no_content), srv', db')
    \<and> ok db' \<and> tbl db' = (tbl db)(i := None)"
  using sqlite_store.delete_removes[OF assms] by blast

text \<open>
  C3. The same for the poll: the client is answered with the JSON array of exactly the fragments of
  the chat that are younger than \<open>since\<close>, in order of time, when the query runs to its end.
\<close>

theorem poll_over_the_wire:
  assumes "sqlite_store eng tbl ok" "ok db" "srv_routes srv = app_routes eng ctx"
    and "fst (allow ticks ip (srv_limiter srv))"
    and "arrives bufs (poll_bytes h c s)" "valid_token ctx h" "pollable c s"
    and "sq_prepare eng (Select_chat c s) db = SQLITE_OK"
    and "last (sq_query eng (Select_chat c s) db) = Stop SQLITE_DONE"
  shows "\<exists>srv' frags. handle_connection srv ticks ip now bufs db
      = (build_response (srv_cors_origin srv) (resp_ok (fragments_array frags)), srv', db)
    \<and> answers (tbl db) (in_chat c s) frags"
  by (rule sqlite_store.poll_answers[OF assms]) blast

text \<open>
  C4. And for the fragments of a message: the client is answered with the JSON array of exactly the fragments
  of the message that the path names, in order of time, when the query runs to its end.
\<close>

theorem message_over_the_wire:
  assumes "sqlite_store eng tbl ok" "ok db" "srv_routes srv = app_routes eng ctx"
    and "fst (allow ticks ip (srv_limiter srv))"
    and "arrives bufs (message_bytes h m)" "valid_token ctx h" "deletable m"
    and "sq_prepare eng (Select_message m) db = SQLITE_OK"
    and "last (sq_query eng (Select_message m) db) = Stop SQLITE_DONE"
  shows "\<exists>srv' frags. handle_connection srv ticks ip now bufs db
      = (build_response (srv_cors_origin srv) (resp_ok (fragments_array frags)), srv', db)
    \<and> answers (tbl db) (in_message m) frags"
  by (rule sqlite_store.message_answers[OF assms]) blast

section \<open>Witnesses\<close>

definition sample_server :: "ref_db http_server" where
  "sample_server = register_routes ref_engine sample_ctx (http_server_new 8080 ''*'' 60)"

lemma sample_server_routes: "srv_routes sample_server = app_routes ref_engine sample_ctx"
  by (simp add: sample_server_def app_routes_def register_routes_def add_route_def http_server_new_def)

lemma sample_server_allows: "fst (allow 0 ''ip'' (srv_limiter sample_server))"
  by (simp add: sample_server_def register_routes_def add_route_def http_server_new_def allow_def rl_new_def
    rl_entry_of_def)

lemma sample_scannable: "frag_scannable sample_fragment" "filled sample_fragment" "nul_free sample_fragment"
  by (simp_all add: sample_fragment_def frag_scannable_def scannable_def json_plain_def frag_keys_def
    int64_range_def LLONG_MIN_def LLONG_MAX_def filled_def nul_free_def)

lemma sample_body: "length (post_body sample_fragment) = 87"
  by (simp add: post_body_def post_members_def object_text_def member_text_def quoted_def json_escape_char_def
    sample_fragment_def show_int_def show_nat.simps digit_char_def)

lemma sample_verify: "verify (ctx_tokens sample_ctx) ''t''"
  by (simp add: verify_def sample_ctx_def to_lower_def substr_def tolower_def)

lemma sample_token: "valid_token sample_ctx ''t''"
  using sample_verify by (simp add: valid_token_def trim_id is_ws_def)

lemma sample_postable: "postable sample_ctx sample_fragment"
  using sample_scannable by (simp add: postable_def sample_body) (simp add: sample_ctx_def)

lemma sample_pollable: "pollable ''c'' 5"
  by (simp add: pollable_def int64_range_def LLONG_MIN_def LLONG_MAX_def)

lemma sample_post_arrives: "arrives [post_bytes ''t'' sample_fragment] (post_bytes ''t'' sample_fragment)"
  by (simp add: arrives_def post_bytes_def render_request_def sample_body head_text_def header_line_def
    render_target_def MAX_REQUEST_BYTES_def path_keep_def uri_keep_def isdigit_def show_nat.simps)

lemma sample_poll_arrives: "arrives [poll_bytes ''t'' ''c'' 5] (poll_bytes ''t'' ''c'' 5)"
  by (simp add: arrives_def poll_bytes_def render_request_def head_text_def header_line_def render_target_def
    MAX_REQUEST_BYTES_def path_keep_def uri_keep_def isdigit_def show_nat.simps show_int_def render_query_def
    upper_hex_def digit_char_def)

lemma sample_delete_arrives: "arrives [delete_bytes ''t'' ''m-0''] (delete_bytes ''t'' ''m-0'')"
  by (simp add: arrives_def delete_bytes_def render_request_def head_text_def header_line_def render_target_def
    MAX_REQUEST_BYTES_def path_keep_def uri_keep_def isdigit_def show_nat.simps)

lemma sample_insert:
  "insert_fragment ref_engine (sample_fragment\<lparr>timestamp := now\<rparr>) ref_empty
    = (Inr True, ref_empty\<lparr>ref_rows := [sample_fragment\<lparr>timestamp := now\<rparr>], ref_changes := 1\<rparr>)"
proof -
  have "bind_fragment (sample_fragment\<lparr>timestamp := now\<rparr>) = sample_fragment\<lparr>timestamp := now\<rparr>"
    using sample_scannable(3) by (intro bind_nul_free) (simp add: nul_free_def)
  then show ?thesis
    by (simp add: insert_fragment_def run_dml_def check_rc_def ref_engine_def ref_step_def ref_effect_def ref_empty_def
      sqlite_codes Let_def)
qed

theorem post_over_the_wire_witness:
  "\<exists>srv' db'. handle_connection sample_server 0 ''ip'' 1700000000 [post_bytes ''t'' sample_fragment] ref_empty
      = (build_response (srv_cors_origin sample_server) (resp_created (created_body (frag_id sample_fragment))), srv', db')
    \<and> ref_ok db' \<and> ref_tbl db' = (ref_tbl ref_empty)(frag_id sample_fragment \<mapsto> sample_fragment\<lparr>timestamp := 1700000000\<rparr>)"
  by (rule post_over_the_wire[OF ref.sqlite_store_axioms sample_db_ok(2) sample_server_routes sample_server_allows
    sample_post_arrives sample_token sample_postable]) (simp_all add: sample_tbl sample_insert)

theorem delete_over_the_wire_witness:
  "\<exists>srv' db'. handle_connection sample_server 0 ''ip'' 1700000001 [delete_bytes ''t'' ''m-0''] sample_db
      = (build_response (srv_cors_origin sample_server)
          (if ref_tbl sample_db ''m-0'' = None then resp_not_found else resp_no_content), srv', db')
    \<and> ref_ok db' \<and> ref_tbl db' = (ref_tbl sample_db)(''m-0'' := None)"
proof (rule delete_over_the_wire[OF ref.sqlite_store_axioms sample_db_ok(1) sample_server_routes sample_server_allows
    sample_delete_arrives sample_token])
  show "\<not> isl (fst (delete_fragment ref_engine ''m-0'' sample_db))"
    by (simp add: delete_fragment_def run_dml_def check_rc_def ref_engine_def ref_step_def ref_effect_def sqlite_codes
      sample_db_def ref_empty_def)
qed (simp add: deletable_def)

theorem poll_over_the_wire_witness:
  "\<exists>srv' frags. handle_connection sample_server 0 ''ip'' 1700000001 [poll_bytes ''t'' ''c'' 5] sample_db
      = (build_response (srv_cors_origin sample_server) (resp_ok (fragments_array frags)), srv', sample_db)
    \<and> answers (ref_tbl sample_db) (in_chat ''c'' 5) frags"
  by (rule poll_over_the_wire[OF ref.sqlite_store_axioms sample_db_ok(1) sample_server_routes sample_server_allows
    sample_poll_arrives sample_token sample_pollable])
    (simp_all add: ref_engine_def ref_query_def sample_db_def ref_empty_def sqlite_codes)

theorem message_over_the_wire_witness:
  "\<exists>srv' frags. handle_connection sample_server 0 ''ip'' 1700000001 [message_bytes ''t'' ''m''] sample_db
      = (build_response (srv_cors_origin sample_server) (resp_ok (fragments_array frags)), srv', sample_db)
    \<and> answers (ref_tbl sample_db) (in_message ''m'') frags"
proof (rule message_over_the_wire[OF ref.sqlite_store_axioms sample_db_ok(1) sample_server_routes sample_server_allows
    _ sample_token])
  show "arrives [message_bytes ''t'' ''m''] (message_bytes ''t'' ''m'')"
    by (simp add: arrives_def message_bytes_def render_request_def head_text_def header_line_def render_target_def
      MAX_REQUEST_BYTES_def path_keep_def uri_keep_def isdigit_def show_nat.simps)
qed (simp_all add: deletable_def ref_engine_def ref_query_def sample_db_def ref_empty_def sqlite_codes)

lemma sample_post_valid: "post_valid sample_ctx sample_post"
proof -
  have "req_body sample_post = post_body sample_fragment"
    by (simp add: sample_post_def post_body_def post_members_def sample_fragment_def)
  moreover have "is_authorized (ctx_tokens sample_ctx) sample_post"
    using sample_verify by (simp add: is_authorized_def sample_post_def)
  ultimately show ?thesis
    using post_valid_body(1)[OF sample_scannable(1,2)] by (simp add: sample_body sample_ctx_def)
qed

lemma sample_posted: "posted now sample_post = sample_fragment\<lparr>timestamp := now\<rparr>"
proof -
  have "req_body sample_post = post_body sample_fragment"
    by (simp add: sample_post_def post_body_def post_members_def sample_fragment_def)
  then show ?thesis by (simp add: posted_def read_post_body[OF sample_scannable(1)])
qed

theorem post_refines_witness:
  "\<exists>resp db'. post_fragment_handler ref_engine sample_ctx 5 sample_post (sample_db\<lparr>ref_faults := [5]\<rparr>) = (resp, db')
    \<and> (resp = resp_server_error ''db error'' \<and> ref_tbl db' = ref_tbl sample_db
      \<or> resp = resp_created (created_body (frag_id (posted 5 sample_post)))
        \<and> ref_tbl sample_db ''m-0'' = None \<and> ref_tbl db' = (ref_tbl sample_db)(''m-0'' \<mapsto> bind_fragment (posted 5 sample_post))
      \<or> resp = resp_ok duplicate_body \<and> ref_tbl sample_db ''m-0'' \<noteq> None \<and> ref_tbl db' = ref_tbl sample_db)"
proof -
  let ?db = "sample_db\<lparr>ref_faults := [5]\<rparr>"
  have db: "ref_ok ?db" "ref_tbl ?db = ref_tbl sample_db"
    using sample_db_ok(1) by (simp_all add: ref_ok_def ref_tbl_def)
  have i: "frag_id (bind_fragment (posted 5 sample_post)) = ''m-0''"
    by (simp add: sample_posted sample_fragment_def c_str_id)
  obtain resp db' where r: "post_fragment_handler ref_engine sample_ctx 5 sample_post ?db = (resp, db')" by fastforce
  from post_refines[OF ref.sqlite_store_axioms db(1) sample_post_valid r] show ?thesis
    unfolding r db(2) i by blast
qed

text \<open>
  An authorised DELETE either fails as a whole (500, table unchanged), or removes the fragment
  with that id and nothing else (204), or finds none (404, table unchanged).
\<close>

theorem delete_refines:
  assumes "sqlite_store eng tbl ok" "ok db" "is_authorized (ctx_tokens ctx) req"
    and "req_params req ''id'' = Some i" "i \<noteq> []"
    and "delete_fragment_handler eng ctx now req db = (resp, db')"
  shows "resp = resp_server_error ''db error'' \<and> tbl db' = tbl db
    \<or> resp = resp_no_content \<and> tbl db (c_str i) \<noteq> None \<and> tbl db' = (tbl db)(c_str i := None)
    \<or> resp = resp_not_found \<and> tbl db (c_str i) = None \<and> tbl db' = tbl db"
proof -
  have eq: "delete_fragment_handler eng ctx now req db = (case delete_fragment eng i db of
      (Inl e, db') \<Rightarrow> (resp_server_error ''db error'', db')
    | (Inr deleted, db') \<Rightarrow> if \<not> deleted then (resp_not_found, db') else (resp_no_content, db'))"
    using assms(3-5) by (rule delete_is_delete)
  obtain r where r: "delete_fragment eng i db = (r, db')"
    using assms(6) by (auto simp: eq split: prod.splits sum.splits if_splits)
  show ?thesis
  proof (cases r)
    case (Inl e)
    then show ?thesis
      using assms(6) r sqlite_store.delete_error(1)[OF assms(1,2)] by (simp add: eq)
  next
    case (Inr b)
    then have "(b, tbl db') = store_delete (c_str i) (tbl db)"
      using r sqlite_store.delete_done(1)[OF assms(1,2)] by simp
    then show ?thesis
      using assms(6) r Inr by (auto simp: eq store_delete_def fun_upd_idem split: if_splits)
  qed
qed

theorem delete_refines_witness:
  "\<exists>resp db'. delete_fragment_handler ref_engine sample_ctx 5 (sample_post\<lparr>req_params := [''id'' \<mapsto> ''m-0'']\<rparr>) sample_db
      = (resp, db')
    \<and> (resp = resp_server_error ''db error'' \<and> ref_tbl db' = ref_tbl sample_db
      \<or> resp = resp_no_content \<and> ref_tbl sample_db (c_str ''m-0'') \<noteq> None
        \<and> ref_tbl db' = (ref_tbl sample_db)(c_str ''m-0'' := None)
      \<or> resp = resp_not_found \<and> ref_tbl sample_db (c_str ''m-0'') = None \<and> ref_tbl db' = ref_tbl sample_db)"
proof -
  let ?req = "sample_post\<lparr>req_params := [''id'' \<mapsto> ''m-0'']\<rparr>"
  obtain resp db' where r: "delete_fragment_handler ref_engine sample_ctx 5 ?req sample_db = (resp, db')" by fastforce
  have "is_authorized (ctx_tokens sample_ctx) ?req" using sample_post_valid by (simp add: post_valid_def)
  from delete_refines[OF ref.sqlite_store_axioms sample_db_ok(1) this _ _ r, of "''m-0''"] show ?thesis
    unfolding r by simp
qed

text \<open>
  C24. The health endpoint needs no token and reports, as JSON, the time since the start and the
  number of fragments in the table (when SQLite counts them without an error).
\<close>

theorem health_reports:
  assumes "sqlite_store eng tbl ok" "ok db" "req_method req = ''GET''" "req_path req = ''/health''"
    and "sq_prepare eng Select_count db = SQLITE_OK" "fst (sq_count eng db) = SQLITE_ROW"
  shows "\<exists>body. respond (app_routes eng ctx) now req db = (resp_ok body, db)
    \<and> parse_json body = Some (J_object [(''status'', J_string ''ok''), (''version'', J_string ''1.0.0''),
        (''uptime_sec'', J_int (now - start_time ctx)), (''fragment_count'', J_int (int (card (dom (tbl db)))))])"
proof -
  obtain n where n: "sq_count eng db = (SQLITE_ROW, n)" using assms(6) by (metis prod.collapse)
  have "n = int (card (dom (tbl db)))" by (rule sqlite_store.count_rows[OF assms(1,2) n])
  then have "respond (app_routes eng ctx) now req db
      = (resp_ok (health_body (now - start_time ctx) (int (card (dom (tbl db))))), db)"
    using assms(3-5) n
    by (simp add: respond_serve serve_def split_patterns endpoint_of_def health_handler_def get_fragment_count_def
      check_rc_def)
  moreover have "parse_json (health_body (now - start_time ctx) (int (card (dom (tbl db)))))
      = Some (J_object [(''status'', J_string ''ok''), (''version'', J_string ''1.0.0''),
        (''uptime_sec'', J_int (now - start_time ctx)), (''fragment_count'', J_int (int (card (dom (tbl db)))))])"
    unfolding health_body_show by (rule parse_json_show)
  ultimately show ?thesis by (intro exI conjI)
qed

theorem health_reports_witness:
  "\<exists>body. respond (app_routes ref_engine sample_ctx) 1700000000 (empty_request\<lparr>req_method := ''GET'', req_path := ''/health''\<rparr>) sample_db
      = (resp_ok body, sample_db)
    \<and> parse_json body = Some (J_object [(''status'', J_string ''ok''), (''version'', J_string ''1.0.0''),
        (''uptime_sec'', J_int (1700000000 - start_time sample_ctx)),
        (''fragment_count'', J_int (int (card (dom (ref_tbl sample_db)))))])"
  by (rule health_reports[OF ref.sqlite_store_axioms sample_db_ok(1)])
    (simp_all add: ref_engine_def sample_db_def ref_empty_def)

text \<open>
  C22. A purge, by what SQLite returns.  When the statement is prepared and runs to its end, exactly the
  fragments are gone whose time to live is positive and over, and the result is their number; when its step
  fails, the table is unchanged, and no error is reported; when it cannot be prepared, that is the error.
\<close>

theorem purge_refines:
  assumes "sqlite_store eng tbl ok" "ok db" "sq_step eng (Delete_expired now) db = (rc, db1)"
    and "purge_expired eng now db = (r, db')"
  shows "(sq_prepare eng (Delete_expired now) db = SQLITE_OK \<and> rc = SQLITE_DONE \<longrightarrow>
        (\<forall>i f. tbl db' i = Some f \<longleftrightarrow> tbl db i = Some f \<and> (ttl f \<le> 0 \<or> now < timestamp f + ttl f))
        \<and> r = Inr (int (card {i. \<exists>f. tbl db i = Some f \<and> 0 < ttl f \<and> timestamp f + ttl f \<le> now})))
    \<and> (sq_prepare eng (Delete_expired now) db = SQLITE_OK \<and> rc \<noteq> SQLITE_DONE \<longrightarrow>
        tbl db' = tbl db \<and> r = Inr (sq_changes eng db'))
    \<and> (sq_prepare eng (Delete_expired now) db \<notin> {SQLITE_OK, SQLITE_ROW, SQLITE_DONE} \<longrightarrow> db' = db \<and> isl r)"
proof -
  note c = sqlite_store.purge_cases[OF assms(1-3)]
  have left: "store_purge now t i = Some f \<longleftrightarrow> t i = Some f \<and> (ttl f \<le> 0 \<or> now < timestamp f + ttl f)" for t i f
    by (auto simp: store_purge_def expired_def split: option.splits)
  show ?thesis
  proof (intro conjI impI; (elim conjE)?)
    assume p: "sq_prepare eng (Delete_expired now) db = SQLITE_OK"
    have r: "r = Inr (sq_changes eng db1)" "db' = db1" using c(2)[OF p] assms(4) by simp_all
    show "\<forall>i f. tbl db' i = Some f \<longleftrightarrow> tbl db i = Some f \<and> (ttl f \<le> 0 \<or> now < timestamp f + ttl f)" if "rc = SQLITE_DONE"
      using c(3)[OF that] by (simp add: r left)
    show "r = Inr (int (card {i. \<exists>f. tbl db i = Some f \<and> 0 < ttl f \<and> timestamp f + ttl f \<le> now}))" if "rc = SQLITE_DONE"
      using c(3)[OF that] by (simp add: r expired_def)
    show "tbl db' = tbl db" "r = Inr (sq_changes eng db')" if "rc \<noteq> SQLITE_DONE"
      using c(4)[OF that] by (simp_all add: r)
  next
    assume p: "sq_prepare eng (Delete_expired now) db \<notin> {SQLITE_OK, SQLITE_ROW, SQLITE_DONE}"
    show "db' = db" "isl r" using c(1)[OF p] assms(4) by simp_all
  qed
qed

theorem purge_refines_witness:
  "\<exists>r db'. purge_expired ref_engine 1700000060 sample_db = (r, db') \<and> ref_tbl db' ''m-0'' = None
    \<and> r = Inr (int (card {i. \<exists>f. ref_tbl sample_db i = Some f \<and> 0 < ttl f \<and> timestamp f + ttl f \<le> 1700000060}))"
proof -
  obtain r db' where p: "purge_expired ref_engine 1700000060 sample_db = (r, db')" by fastforce
  obtain rc db1 where q: "sq_step ref_engine (Delete_expired 1700000060) sample_db = (rc, db1)" by fastforce
  have "sq_prepare ref_engine (Delete_expired 1700000060) sample_db = SQLITE_OK" "rc = SQLITE_DONE"
    using q by (simp_all add: ref_engine_def ref_step_def sample_db_def ref_empty_def)
  with purge_refines[OF ref.sqlite_store_axioms sample_db_ok(1) q p]
  have "\<forall>f. ref_tbl db' ''m-0'' = Some f \<longleftrightarrow>
      ref_tbl sample_db ''m-0'' = Some f \<and> (ttl f \<le> 0 \<or> 1700000060 < timestamp f + ttl f)"
    "r = Inr (int (card {i. \<exists>f. ref_tbl sample_db i = Some f \<and> 0 < ttl f \<and> timestamp f + ttl f \<le> 1700000060}))"
    by blast+
  moreover have "ref_tbl db' ''m-0'' \<noteq> Some f" for f
    using calculation(1)[THEN spec, of f] by (auto simp: sample_tbl sample_fragment_def)
  then have "ref_tbl db' ''m-0'' = None" by blast
  ultimately show ?thesis using p by blast
qed






text \<open>
  C32. A read error is not reported: whenever the query of a client's poll ends after the rows \<open>fs\<close>, with any
  result code whatever, the client is answered 200 with the JSON array of just \<open>fs\<close>, although the table holds
  a matching fragment that is not among them.
\<close>

theorem poll_hides_read_error:
  assumes "sqlite_store eng tbl ok" "ok db" "srv_routes srv = app_routes eng ctx"
    and "fst (allow ticks ip (srv_limiter srv))"
    and "arrives bufs (poll_bytes h c s)" "valid_token ctx h" "pollable c s"
    and "sq_prepare eng (Select_chat c s) db = SQLITE_OK"
    and "sq_query eng (Select_chat c s) db = map (Row \<circ> sql_row_of) fs @ [Stop rc]" "set fs \<subseteq> ran (tbl db)"
    and "f \<in> ran (tbl db)" "in_chat c s f" "f \<notin> set fs"
  shows "fst (handle_connection srv ticks ip now bufs db) = build_response (srv_cors_origin srv) (resp_ok (fragments_array fs))
    \<and> rc \<noteq> SQLITE_DONE"
proof -
  have sel: "selects (Select_chat c s) = in_chat c s" by (simp add: fun_eq_iff)
  obtain rc' where "last (sq_query eng (Select_chat c s) db) = Stop rc'" "rc' = SQLITE_DONE \<longrightarrow>
      answers (tbl db) (in_chat c s) (fetch_rows (sq_query eng (Select_chat c s) db))"
    using sqlite_store.query_fetch[OF assms(1,2), of "Select_chat c s"] by (auto simp: sel)
  moreover have "\<forall>f \<in> set fs. nul_free f"
    using assms(10) sqlite_store.ok_wf[OF assms(1,2)] by (auto simp: store_wf_def ran_def)
  then have "fetch_rows (sq_query eng (Select_chat c s) db) = fs" by (simp add: assms(9) fetch_rows_of)
  ultimately have "rc \<noteq> SQLITE_DONE" using assms(9,11-13) by (auto simp: answers_def)
  then show ?thesis using sqlite_store.poll_broken[OF assms(1-10)] by simp
qed

theorem poll_hides_read_error_witness:
  "fst (handle_connection sample_server 0 ''ip'' 1700000001 [poll_bytes ''t'' ''c'' 5] (sample_db\<lparr>ref_cut := Some 0\<rparr>))
      = build_response (srv_cors_origin sample_server) (resp_ok (fragments_array [])) \<and> (5 :: int) \<noteq> SQLITE_DONE"
proof (rule poll_hides_read_error[OF ref.sqlite_store_axioms _ sample_server_routes sample_server_allows
    sample_poll_arrives sample_token sample_pollable])
  show "ref_ok (sample_db\<lparr>ref_cut := Some 0\<rparr>)" using sample_db_ok(1) by (simp add: ref_ok_def)
  show "sample_fragment \<in> ran (ref_tbl (sample_db\<lparr>ref_cut := Some 0\<rparr>))"
    using sample_tbl(1) by (simp add: ref_tbl_def)
  show "in_chat ''c'' 5 sample_fragment" by (simp add: in_chat_def sample_fragment_def)
qed (simp_all add: ref_engine_def ref_query_def sample_db_def ref_empty_def)

text \<open>
  C34. An id that starts with a NUL byte passes the check for a missing id, but is stored as the
  empty text: once one such fragment is in the table, every other one is refused as a duplicate.
\<close>

theorem nul_ids_collide:
  assumes "sqlite_store eng tbl ok" "ok db" "tbl db [] \<noteq> None" "post_valid ctx req"
    and "frag_id (posted now req) = NUL # i"
    and "post_fragment_handler eng ctx now req db = (resp, db')"
  shows "tbl db' = tbl db \<and> resp \<in> {resp_server_error ''db error'', resp_ok duplicate_body}"
proof -
  have "frag_id (bind_fragment (posted now req)) = []" using assms(5) by (simp add: c_str_def)
  then show ?thesis using post_result[OF assms(1,2,4,6)] assms(3) by auto
qed

definition nul_db :: ref_db where
  "nul_db = ref_empty\<lparr>ref_rows := [bind_fragment (sample_fragment\<lparr>frag_id := [NUL, CHR ''x'']\<rparr>)]\<rparr>"

definition nul_post :: http_request where
  "nul_post = sample_post\<lparr>req_body := ''{'' @ quoted ''id'' @ '':'' @ quoted [NUL, CHR ''y''] @ '','' @
     members_text [(''message_id'', Js_string ''m''), (''chat_id'', Js_string ''c''),
       (''sender_hash'', Js_string ''s''), (''payload'', Js_string ''p'')] @ ''}''\<rparr>"

lemma nul_post_valid: "post_valid sample_ctx nul_post" "frag_id (posted now nul_post) = [NUL, CHR ''y'']"
  by (simp_all add: post_valid_def posted_def read_fragment_def nul_post_def sample_post_def sample_ctx_def
    is_authorized_def verify_def to_lower_def substr_def tolower_def extract_string_def find_colon_def str_find_def
    find_char_def quoted_def member_text_def json_escape_char_def substr_from_def unescape_def empty_request_def)

theorem nul_ids_collide_witness:
  "\<exists>resp db'. post_fragment_handler ref_engine sample_ctx 7 nul_post nul_db = (resp, db')
    \<and> ref_tbl db' = ref_tbl nul_db \<and> resp \<in> {resp_server_error ''db error'', resp_ok duplicate_body}"
proof -
  have ok: "ref_ok nul_db" by (simp add: ref_ok_def nul_db_def ref_empty_def)
  have t: "ref_tbl nul_db [] \<noteq> None"
    by (simp add: ref_tbl_def nul_db_def ref_empty_def c_str_def)
  obtain resp db' where r: "post_fragment_handler ref_engine sample_ctx 7 nul_post nul_db = (resp, db')" by fastforce
  from nul_ids_collide[OF ref.sqlite_store_axioms ok t nul_post_valid(1) nul_post_valid(2) r] r
  show ?thesis by blast
qed

text \<open>
  Whatever a poll delivers, errors of SQLite included, is in the table, belongs to the chat and is
  strictly younger than \<open>since\<close>, in order of time and without repetition.  (So a client that
  polls with the largest time stamp it has seen never receives a fragment stored later in that second.)
\<close>

theorem poll_sound:
  assumes "sqlite_store eng tbl ok" "ok db" "get_fragments eng c since db = Inr frags"
  shows "set frags \<subseteq> {f \<in> ran (tbl db). chat_id f = c_str c \<and> since < timestamp f}
    \<and> distinct frags \<and> sorted (map timestamp frags)"
proof -
  have "frags = fetch_rows (sq_query eng (Select_chat (c_str c) since) db)"
    using assms(3) by (simp add: get_fragments_def Let_def split: sum.splits)
  then show ?thesis
    using sqlite_store.query_fetch[OF assms(1,2), of "Select_chat (c_str c) since"] by (auto simp: in_chat_def)
qed

theorem poll_sound_witness:
  "\<exists>frags. get_fragments ref_engine ''c'' 5 sample_db = Inr frags
    \<and> set frags \<subseteq> {f \<in> ran (ref_tbl sample_db). chat_id f = c_str ''c'' \<and> 5 < timestamp f}"
proof -
  obtain frags where g: "get_fragments ref_engine ''c'' 5 sample_db = Inr frags"
    by (simp add: get_fragments_def check_rc_def ref_engine_def sample_db_def ref_empty_def)
  from poll_sound[OF ref.sqlite_store_axioms sample_db_ok(1) g] g show ?thesis by blast
qed

text \<open>
  The fragments of a message are answered completely when the query runs to its end.
\<close>

theorem message_fragments_complete:
  assumes "sqlite_store eng tbl ok" "ok db" "get_message_fragments eng m db = Inr frags"
    and "last (sq_query eng (Select_message (c_str m)) db) = Stop SQLITE_DONE"
  shows "answers (tbl db) (in_message (c_str m)) frags"
proof -
  have "frags = fetch_rows (sq_query eng (Select_message (c_str m)) db)"
    using assms(3) by (simp add: get_message_fragments_def Let_def split: sum.splits)
  moreover have "selects (Select_message (c_str m)) = in_message (c_str m)" by (simp add: fun_eq_iff)
  ultimately show ?thesis
    using sqlite_store.query_fetch[OF assms(1,2), of "Select_message (c_str m)"] assms(4) by auto
qed

theorem message_fragments_complete_witness:
  "\<exists>frags. get_message_fragments ref_engine ''m'' sample_db = Inr frags
    \<and> answers (ref_tbl sample_db) (in_message (c_str ''m'')) frags"
proof -
  obtain frags where g: "get_message_fragments ref_engine ''m'' sample_db = Inr frags"
    by (simp add: get_message_fragments_def check_rc_def ref_engine_def sample_db_def ref_empty_def)
  have "last (sq_query ref_engine (Select_message (c_str ''m'')) sample_db) = Stop SQLITE_DONE"
    by (simp add: ref_engine_def ref_query_def sample_db_def ref_empty_def)
  from message_fragments_complete[OF ref.sqlite_store_axioms sample_db_ok(1) g this] g show ?thesis by blast
qed

end
