(* ===== verification/System.thy ===== *)
theory System
  imports App_Props
begin

text \<open>
  The running server: connections and purges as events on the server (whose limiter moves) and the
  database.  The clients choose the bytes that they send; what holds over all sequences of events
  holds against any client.
\<close>

section \<open>Events\<close>

text \<open>A connection: monotonic clock, address, wall clock, the received blocks; and a purge.\<close>

datatype system_event = Sys_connection int string int "string list" | Sys_purge int

fun system_step :: "'db sqlite \<Rightarrow> system_event \<Rightarrow> 'db http_server \<times> 'db \<Rightarrow> 'db http_server \<times> 'db" where
  "system_step eng (Sys_connection ticks ip now bufs) (srv, db) = snd (handle_connection srv ticks ip now bufs db)"
| "system_step eng (Sys_purge now) (srv, db) = (srv, snd (purge_expired eng now db))"

fun system_effect :: "app_context \<Rightarrow> system_event \<Rightarrow> db_op option" where
  "system_effect ctx (Sys_connection ticks ip now bufs) = request_effect ctx now (read_and_parse bufs)"
| "system_effect ctx (Sys_purge now) = Some (Op_purge now)"

section \<open>One connection\<close>

lemma handle_cases:
  "handle_connection srv ticks ip now bufs db =
    (if fst (allow ticks ip (srv_limiter srv))
     then (build_response (srv_cors_origin srv) (fst (respond (srv_routes srv) now (read_and_parse bufs) db)),
       srv\<lparr>srv_limiter := snd (allow ticks ip (srv_limiter srv))\<rparr>,
       snd (respond (srv_routes srv) now (read_and_parse bufs) db))
     else (build_response (srv_cors_origin srv) resp_too_many_requests,
       srv\<lparr>srv_limiter := snd (allow ticks ip (srv_limiter srv))\<rparr>, db))"
  by (cases "allow ticks ip (srv_limiter srv)"; cases "respond (srv_routes srv) now (read_and_parse bufs) db")
    (simp add: handle_connection_def Let_def)

lemma step_server:
  "srv_routes (fst (system_step eng ev (srv, db))) = srv_routes srv"
  "srv_cors_origin (fst (system_step eng ev (srv, db))) = srv_cors_origin srv"
  by (cases ev; simp add: handle_cases)+

lemma system_step_effect:
  assumes "srv_routes srv = app_routes eng ctx"
  shows "snd (system_step eng ev (srv, db)) = db
    \<or> (\<exists>e. system_effect ctx ev = Some e \<and> snd (system_step eng ev (srv, db)) = db_apply eng e db)"
  by (cases ev) (auto simp: assms handle_cases respond_effect split: option.splits)

section \<open>Runs\<close>

sublocale sqlite_store \<subseteq> system: store_machine "system_step eng" "\<lambda>st. tbl (snd st)"
    "\<lambda>st. ok (snd st) \<and> srv_routes (fst st) = app_routes eng ctx" "system_effect ctx" for ctx
proof
  fix st :: "'db http_server \<times> 'db" and ev
  assume ok: "ok (snd st) \<and> srv_routes (fst st) = app_routes eng ctx"
  obtain srv db where st: "st = (srv, db)" by fastforce
  have srv: "srv_routes srv = app_routes eng ctx" and db: "ok db" using ok st by simp_all
  consider "snd (system_step eng ev (srv, db)) = db"
    | e where "system_effect ctx ev = Some e" "snd (system_step eng ev (srv, db)) = db_apply eng e db"
    using system_step_effect[OF srv] by blast
  then have "ok (snd (system_step eng ev (srv, db)))
    \<and> (tbl (snd (system_step eng ev (srv, db))) = tbl db
      \<or> (\<exists>e. system_effect ctx ev = Some e \<and> tbl (snd (system_step eng ev (srv, db))) = store_apply e (tbl db)))"
    by cases (use db methods.run1_ok[OF db] methods.run1_effect[OF db] in auto)
  then show "ok (snd (system_step eng ev st)) \<and> srv_routes (fst (system_step eng ev st)) = app_routes eng ctx"
    and "tbl (snd (system_step eng ev st)) = tbl (snd st)
      \<or> (\<exists>e. system_effect ctx ev = Some e \<and> tbl (snd (system_step eng ev st)) = store_apply e (tbl (snd st)))"
    by (simp_all add: st srv step_server)
qed (simp add: ok_wf)

context sqlite_store begin

lemma system_kept:
  assumes "ok db" "srv_routes srv = app_routes eng ctx" "tbl db i = Some f"
    and "\<forall>ev \<in> set evs. \<forall>e. system_effect ctx ev = Some e \<longrightarrow> spares i f e"
  shows "tbl (snd (fold (system_step eng) evs (srv, db))) i = Some f"
  by (rule system.run_kept[where ctx = ctx]) (simp_all add: assms)

lemma system_ok:
  assumes "ok db" "srv_routes srv = app_routes eng ctx"
  shows "ok (snd (fold (system_step eng) evs (srv, db)))"
    and "srv_routes (fst (fold (system_step eng) evs (srv, db))) = app_routes eng ctx"
proof -
  have "ok (snd (srv, db)) \<and> srv_routes (fst (srv, db)) = app_routes eng ctx" using assms by simp
  from system.run_ok[OF this, of evs]
  show "ok (snd (fold (system_step eng) evs (srv, db)))"
    "srv_routes (fst (fold (system_step eng) evs (srv, db))) = app_routes eng ctx" by simp_all
qed

end

text \<open>The settings of the server do not change while it runs.\<close>

lemma run_server:
  "srv_routes (fst (fold (system_step eng) evs st)) = srv_routes (fst st)"
  "srv_cors_origin (fst (fold (system_step eng) evs st)) = srv_cors_origin (fst st)"
  by (induction evs arbitrary: st) (auto simp: step_server)

section \<open>Answers\<close>

lemma app_responders: "\<forall>r \<in> set (app_routes eng ctx). responder (route_handler r)"
  by (simp add: app_routes_list health_resp.responder_axioms post_resp.responder_axioms
    list_resp.responder_axioms message_resp.responder_axioms delete_resp.responder_axioms)

lemma respond_wf: "resp_wf (fst (respond (app_routes eng ctx) now req db))"
  by (simp add: respond_def responder.wf[OF responder_loop[OF app_responders]])

lemma connection_response:
  assumes "srv_routes srv = app_routes eng ctx"
  obtains resp where "fst (handle_connection srv ticks ip now bufs db) = build_response (srv_cors_origin srv) resp"
    and "resp_wf resp"
  using assms respond_wf[of eng ctx now "read_and_parse bufs" db]
  by (cases "fst (allow ticks ip (srv_limiter srv))") (auto simp: handle_cases intro: that)

definition refusal :: "'db http_server \<Rightarrow> string" where
  "refusal srv = build_response (srv_cors_origin srv) resp_too_many_requests"

section \<open>Sample runs\<close>

text \<open>The sample client posts to an empty table, and a purge follows before the fragment expires.\<close>

abbreviation sample_served :: "ref_db http_server" where
  "sample_served \<equiv> sample_server\<lparr>srv_limiter := snd (allow 0 ''ip'' (srv_limiter sample_server))\<rparr>"

definition stored_db :: "int \<Rightarrow> ref_db" where
  "stored_db n = ref_empty\<lparr>ref_rows := [sample_fragment], ref_changes := n\<rparr>"

lemma sample_stamped: "sample_fragment\<lparr>timestamp := 1700000000\<rparr> = sample_fragment"
  by (simp add: sample_fragment_def)

lemma sample_expired: "expired now sample_fragment \<longleftrightarrow> 1700000060 \<le> now"
  by (auto simp: expired_def sample_fragment_def)

lemma sample_inserted: "insert_fragment ref_engine sample_fragment ref_empty = (Inr True, stored_db 1)"
  using sample_insert[of 1700000000] by (simp add: stored_db_def sample_stamped)

lemma sample_post_run:
  "snd (handle_connection sample_server 0 ''ip'' 1700000000 [post_bytes ''t'' sample_fragment] ref_empty)
    = (sample_served, stored_db 1)"
  using sqlite_store.post_stores(1)[OF ref.sqlite_store_axioms sample_db_ok(2) sample_server_routes sample_server_allows sample_post_arrives sample_token
    sample_postable, of 1700000000]
  by (simp add: sample_tbl sample_stamped sample_inserted)

lemma sample_purge_run: "snd (purge_expired ref_engine 1700000030 (stored_db n)) = stored_db 0"
  by (simp add: purge_expired_def run_dml_def check_rc_def ref_engine_def ref_step_def ref_effect_def sqlite_codes
    stored_db_def ref_empty_def sample_expired)

lemma sample_cors: "srv_cors_origin sample_server = ''*''"
  by (simp add: sample_server_def register_routes_def add_route_def http_server_new_def)

lemma sample_silent: "req_method (read_and_parse []) = []"
  "endpoint_of [] (split (req_path (read_and_parse [])) (CHR ''/'')) = Ep_none"
  by (simp_all add: read_and_parse_def parse_request_def recv_start_def str_find_def empty_request_def
    split_patterns endpoint_of_def)

lemma sample_stored: "ref_tbl (stored_db n) ''m-0'' = Some sample_fragment"
  by (simp add: stored_db_def ref_empty_def ref_tbl_def sample_fragment_def)

section \<open>Properties\<close>

text \<open>
  End to end: a fragment that one client posts is delivered to every client that polls its chat
  with an earlier \<open>since\<close>, with the server's time, whatever connections and purges come in
  between, as long as they spare it (no authorised deletion of its id, no purge after its expiry).
\<close>

theorem posted_is_delivered:
  assumes store: "sqlite_store eng tbl ok" "ok db" and routes: "srv_routes srv = app_routes eng ctx"
    and post: "fst (allow t1 ip1 (srv_limiter srv))"
      "arrives bufs1 (post_bytes h1 f)" "valid_token ctx h1" "postable ctx f"
      "tbl db (frag_id f) = None" "\<not> isl (fst (insert_fragment eng (f\<lparr>timestamp := now1\<rparr>) db))"
    and evs: "\<forall>ev \<in> set evs. \<forall>e. system_effect ctx ev = Some e \<longrightarrow> spares (frag_id f) (f\<lparr>timestamp := now1\<rparr>) e"
    and run: "fold (system_step eng) (Sys_connection t1 ip1 now1 bufs1 # evs) (srv, db) = (srv', db')"
    and poll: "fst (allow t2 ip2 (srv_limiter srv'))"
      "arrives bufs2 (poll_bytes h2 (chat_id f) s)" "valid_token ctx h2" "pollable (chat_id f) s"
      "sq_prepare eng (Select_chat (chat_id f) s) db' = SQLITE_OK"
      "last (sq_query eng (Select_chat (chat_id f) s) db') = Stop SQLITE_DONE"
    and since: "s < now1"
  shows "\<exists>srv'' frags. handle_connection srv' t2 ip2 now2 bufs2 db'
      = (build_response (srv_cors_origin srv) (resp_ok (fragments_array frags)), srv'', db')
    \<and> f\<lparr>timestamp := now1\<rparr> \<in> set frags"
proof -
  let ?f = "f\<lparr>timestamp := now1\<rparr>"
  let ?srv1 = "srv\<lparr>srv_limiter := snd (allow t1 ip1 (srv_limiter srv))\<rparr>"
  let ?db1 = "snd (insert_fragment eng ?f db)"
  note stores = sqlite_store.post_stores[OF store routes post]
  have run1: "fold (system_step eng) evs (?srv1, ?db1) = (srv', db')" using run stores(1) by simp
  have routes1: "srv_routes ?srv1 = app_routes eng ctx" using routes by simp
  have "tbl (snd (fold (system_step eng) evs (?srv1, ?db1))) (frag_id f) = Some ?f"
    by (rule sqlite_store.system_kept[OF store(1) stores(2) routes1 _ evs]) (simp add: stores(3))
  then have kept: "tbl db' (frag_id f) = Some ?f" by (simp add: run1)
  have ok: "ok db'" and routes': "srv_routes srv' = app_routes eng ctx"
    using sqlite_store.system_ok[OF store(1) stores(2) routes1, of evs] run1 by simp_all
  have cors: "srv_cors_origin srv' = srv_cors_origin srv"
    using run_server(2)[where st = "(?srv1, ?db1)" and evs = evs and eng = eng] run1 by simp
  obtain frags where "handle_connection srv' t2 ip2 now2 bufs2 db'
      = (build_response (srv_cors_origin srv') (resp_ok (fragments_array frags)),
         srv'\<lparr>srv_limiter := snd (allow t2 ip2 (srv_limiter srv'))\<rparr>, db')"
    and "answers (tbl db') (in_chat (chat_id f) s) frags"
    by (rule sqlite_store.poll_answers[OF store(1) ok routes' poll])
  moreover from this(2) kept since have "?f \<in> set frags"
    by (auto simp: answers_def in_chat_def ran_def)
  ultimately show ?thesis using cors by auto
qed

theorem posted_is_delivered_witness:
  "\<exists>srv'' frags. handle_connection sample_served 0 ''ip'' 1700000040 [poll_bytes ''t'' ''c'' 5] (stored_db 0)
      = (build_response (srv_cors_origin sample_server) (resp_ok (fragments_array frags)), srv'', stored_db 0)
    \<and> sample_fragment\<lparr>timestamp := 1700000000\<rparr> \<in> set frags"
proof (rule posted_is_delivered[OF ref.sqlite_store_axioms sample_db_ok(2) sample_server_routes sample_server_allows
    sample_post_arrives sample_token sample_postable])
  show "fold (system_step ref_engine)
      (Sys_connection 0 ''ip'' 1700000000 [post_bytes ''t'' sample_fragment] # [Sys_purge 1700000030])
      (sample_server, ref_empty) = (sample_served, stored_db 0)"
    by (simp add: sample_post_run sample_purge_run)
  show "fst (allow 0 ''ip'' (srv_limiter sample_served))"
    by (simp add: sample_server_def register_routes_def add_route_def http_server_new_def allow_def rl_new_def
      rl_entry_of_def rl_put_def)
  show "arrives [poll_bytes ''t'' ''c'' 5] (poll_bytes ''t'' (chat_id sample_fragment) 5)"
    "pollable (chat_id sample_fragment) 5"
    using sample_poll_arrives sample_pollable by (simp_all add: sample_fragment_def)
  show "sq_prepare ref_engine (Select_chat (chat_id sample_fragment) 5) (stored_db 0) = SQLITE_OK"
    "last (sq_query ref_engine (Select_chat (chat_id sample_fragment) 5) (stored_db 0)) = Stop SQLITE_DONE"
    by (simp_all add: ref_engine_def ref_query_def stored_db_def ref_empty_def)
qed (simp_all add: sample_tbl sample_token sample_stamped sample_inserted sample_expired)

text \<open>
  C17. Every connection is answered, with one response: its status is one of the ten that the server
  documents, its body is JSON (empty for 204), and a client that frames by Content-Length reads
  exactly that body.
\<close>

theorem connection_answered:
  assumes "srv_routes srv = app_routes eng ctx" "CR \<notin> set (srv_cors_origin srv)"
    and "length (fst (handle_connection srv ticks ip now bufs db)) < ULLONG_MOD"
  shows "\<exists>resp he. fst (handle_connection srv ticks ip now bufs db) = build_response (srv_cors_origin srv) resp
    \<and> resp_wf resp \<and> scan_headers (build_response (srv_cors_origin srv) resp) = Some (he, length (resp_body resp))
    \<and> substr_from (build_response (srv_cors_origin srv) resp) he = resp_body resp"
proof -
  obtain resp where r: "fst (handle_connection srv ticks ip now bufs db) = build_response (srv_cors_origin srv) resp"
    "resp_wf resp"
    by (rule connection_response[OF assms(1)])
  have "length (resp_body resp) < ULLONG_MOD" using assms(3) r(1) by (simp add: build_response_def)
  then show ?thesis using framing[OF assms(2), of resp] r by (auto simp: resp_wf_def)
qed

theorem connection_answered_witness:
  "\<exists>resp he. fst (handle_connection sample_server 0 ''ip'' 5 [] sample_db)
      = build_response (srv_cors_origin sample_server) resp
    \<and> resp_wf resp \<and> scan_headers (build_response (srv_cors_origin sample_server) resp) = Some (he, length (resp_body resp))
    \<and> substr_from (build_response (srv_cors_origin sample_server) resp) he = resp_body resp"
proof (rule connection_answered[OF sample_server_routes])
  have "fst (handle_connection sample_server 0 ''ip'' 5 [] sample_db) = build_response ''*'' resp_not_found"
    by (simp add: handle_cases sample_server_allows sample_server_routes sample_cors respond_serve sample_silent serve_def)
  then show "length (fst (handle_connection sample_server 0 ''ip'' 5 [] sample_db)) < ULLONG_MOD"
    by (simp add: build_response_def response_head_def response_defs error_body_def ULLONG_MOD_def show_int_def
      show_nat.simps json_escape_char_def)
qed (simp add: sample_cors)

end
