(* ===== verification/Node.thy ===== *)
theory Node
  imports Store
begin

text \<open>
  Connection threads over one SQLite connection.  Each connection is served by a thread of its own
  (\<open>HttpServer::start\<close>), and all of them, with the clean-up thread, call the same
  \<open>Database\<close>, which has no lock: SQLite makes each of its calls atomic, but not the sequence
  prepare, step, \<open>sqlite3_changes\<close> of a method.  Here \<open>run_dml\<close> is taken apart into these calls.
\<close>

section \<open>The calls of a method, one by one\<close>

datatype dml_pc = At_prepare | At_step | At_changes | Answered "cxx_exception + int"

fun op_stmt :: "db_op \<Rightarrow> sql_stmt" where
  "op_stmt (Op_insert f) = Insert_or_ignore (bind_fragment f)"
| "op_stmt (Op_delete i) = Delete_id (c_str i)"
| "op_stmt (Op_purge now) = Delete_expired now"

fun op_prep_msg :: "db_op \<Rightarrow> string" where
  "op_prep_msg (Op_insert f) = ''prepare insert''"
| "op_prep_msg (Op_delete i) = ''prepare delete''"
| "op_prep_msg (Op_purge now) = ''prepare purge''"

fun op_step_msg :: "db_op \<Rightarrow> string option" where
  "op_step_msg (Op_insert f) = Some ''step insert''"
| "op_step_msg (Op_delete i) = Some ''step delete''"
| "op_step_msg (Op_purge now) = None"

fun dml_next :: "'db sqlite \<Rightarrow> db_op \<Rightarrow> dml_pc \<Rightarrow> 'db \<Rightarrow> dml_pc \<times> 'db" where
  "dml_next eng op At_prepare db =
     (case check_rc (sq_prepare eng (op_stmt op) db) (op_prep_msg op) of
        Inl e \<Rightarrow> (Answered (Inl e), db)
      | Inr _ \<Rightarrow> (At_step, db))"
| "dml_next eng op At_step db =
     (case sq_step eng (op_stmt op) db of (rc, db') \<Rightarrow>
        case (case op_step_msg op of None \<Rightarrow> Inr () | Some m \<Rightarrow> check_rc rc m) of
          Inl e \<Rightarrow> (Answered (Inl e), db')
        | Inr _ \<Rightarrow> (At_changes, db'))"
| "dml_next eng op At_changes db = (Answered (Inr (sq_changes eng db)), db)"
| "dml_next eng op (Answered r) db = (Answered r, db)"

text \<open>Without interference the three calls are the method.\<close>

lemma uninterrupted:
  "(case dml_next eng op At_prepare db of (pc1, db1) \<Rightarrow>
      case dml_next eng op pc1 db1 of (pc2, db2) \<Rightarrow> dml_next eng op pc2 db2)
    = (case run_dml eng (op_prep_msg op) (op_step_msg op) (op_stmt op) db of (r, db') \<Rightarrow> (Answered r, db'))"
  by (auto simp: run_dml_def split: sum.splits prod.splits)

section \<open>What a step does to the table\<close>

lemma op_dml: "is_dml (op_stmt op)" "stmt_nul_free (op_stmt op)"
  by (cases op; simp)+

lemma sql_effect_apply: "fst (sql_effect (op_stmt op) s) = store_apply op s"
  by (cases op) (auto simp: store_insert_def store_delete_def split: option.splits)

context sqlite_store begin

lemma step_effect:
  assumes "ok db" "sq_step eng (op_stmt op) db = (rc, db')"
  shows "ok db' \<and> (if rc = SQLITE_DONE then tbl db' = store_apply op (tbl db)
    else tbl db' = tbl db \<and> rc \<noteq> SQLITE_OK \<and> rc \<noteq> SQLITE_ROW)"
proof -
  have "ok db'" using step_ok[OF assms(1) op_dml(2), of op] assms(2) by simp
  moreover have "tbl db' = store_apply op (tbl db)" if "rc = SQLITE_DONE"
    using step_done[OF assms(1) op_dml, of op db'] assms(2) that sql_effect_apply[of op "tbl db"]
    by (metis fst_conv)
  ultimately show ?thesis using step_fail[OF assms(1) op_dml(1) assms(2)] by auto
qed

end

end
