(* ===== verification/Threads.thy ===== *)
theory Threads
  imports System Node
begin

text \<open>
  \<open>HttpServer::start\<close> gives every connection a thread of its own, and the clean-up runs in another.
  The threads share the limiter, whose mutex makes \<open>allow\<close> one step, and the database, on which only
  the single SQLite calls are atomic.  A thread's work is taken apart into these steps; the theorems
  hold for every interleaving of any number of threads.
\<close>

section \<open>One thread\<close>

text \<open>
  Where a thread is: before \<open>allow\<close>, permitted and about to read, within a modifying method, and at
  its end with what it sent or, for the clean-up, what the purge returned.
\<close>

datatype job_pc = Begun | Admitted | In_call db_op dml_pc | Sent string | Purged "cxx_exception + int"

text \<open>The modifying call that the handler of a request comes to, when its checks pass.\<close>

definition request_call :: "app_context \<Rightarrow> int \<Rightarrow> http_request \<Rightarrow> db_op option" where
  "request_call ctx now req =
     (if req_method req = ''OPTIONS'' then None
      else (case endpoint_of (req_method req) (split (req_path req) (CHR ''/'')) of
          Ep_post \<Rightarrow> (case post_checks ctx now req of Inl resp \<Rightarrow> None | Inr f \<Rightarrow> Some (Op_insert f))
        | Ep_delete i \<Rightarrow>
            (case delete_checks ctx (req\<lparr>req_params := [''id'' \<mapsto> i]\<rparr>) of
               Inl resp \<Rightarrow> None | Inr j \<Rightarrow> Some (Op_delete j))
        | _ \<Rightarrow> None))"

text \<open>What the handler makes of the result of that call; no request calls a purge.\<close>

fun op_reply :: "db_op \<Rightarrow> cxx_exception + int \<Rightarrow> http_response" where
  "op_reply (Op_insert f) r = post_answer f (map_sum id (\<lambda>n. 0 < n) r)"
| "op_reply op r = delete_answer (map_sum id (\<lambda>n. 0 < n) r)"

fun job_end :: "'db http_server \<Rightarrow> db_op \<Rightarrow> cxx_exception + int \<Rightarrow> job_pc" where
  "job_end srv (Op_purge now) r = Purged r"
| "job_end srv op r = Sent (build_response (srv_cors_origin srv) (op_reply op r))"

text \<open>
  The next step of a thread.  A request without a modifying call is answered in one step, which makes
  at most one query.
\<close>

fun job_next :: "'db sqlite \<Rightarrow> app_context \<Rightarrow> system_event \<Rightarrow> job_pc \<Rightarrow> 'db http_server \<times> 'db
    \<Rightarrow> job_pc \<times> 'db http_server \<times> 'db" where
  "job_next eng ctx (Sys_connection ticks ip now bufs) Begun (srv, db) =
     (case allow ticks ip (srv_limiter srv) of (permitted, rl') \<Rightarrow>
        ((if permitted then Admitted else Sent (refusal srv)), srv\<lparr>srv_limiter := rl'\<rparr>, db))"
| "job_next eng ctx (Sys_connection ticks ip now bufs) Admitted (srv, db) =
     (case request_call ctx now (read_and_parse bufs) of
        None \<Rightarrow> (Sent (build_response (srv_cors_origin srv)
          (fst (respond (srv_routes srv) now (read_and_parse bufs) db))), srv, db)
      | Some op \<Rightarrow> (In_call op At_prepare, srv, db))"
| "job_next eng ctx (Sys_purge now) Begun st = (In_call (Op_purge now) At_prepare, st)"
| "job_next eng ctx ev (In_call op pc) (srv, db) =
     (case dml_next eng op pc db of (pc', db') \<Rightarrow>
        ((case pc' of Answered r \<Rightarrow> job_end srv op r | _ \<Rightarrow> In_call op pc'), srv, db'))"
| "job_next eng ctx ev pc st = (pc, st)"

fun job_done :: "job_pc \<Rightarrow> bool" where
  "job_done (Sent b) = True"
| "job_done (Purged r) = True"
| "job_done pc = False"

fun dml_left :: "dml_pc \<Rightarrow> nat" where
  "dml_left At_prepare = 3"
| "dml_left At_step = 2"
| "dml_left At_changes = 1"
| "dml_left (Answered r) = 1"

text \<open>The steps that a thread may still make.\<close>

fun job_left :: "system_event \<Rightarrow> job_pc \<Rightarrow> nat" where
  "job_left (Sys_connection ticks ip now bufs) Begun = 5"
| "job_left (Sys_connection ticks ip now bufs) Admitted = 4"
| "job_left (Sys_purge now) Begun = 4"
| "job_left (Sys_purge now) Admitted = 0"
| "job_left ev (In_call op pc) = dml_left pc"
| "job_left ev (Sent b) = 0"
| "job_left ev (Purged r) = 0"

lemma request_call_effect [simp]: "request_call ctx now req = request_effect ctx now req"
proof -
  have "post_checks ctx now req = Inl resp \<Longrightarrow> \<not> post_valid ctx req" for resp
    by (simp add: post_checks_invalid)
  moreover have "delete_checks ctx req = Inl resp \<Longrightarrow> \<not> (is_authorized (ctx_tokens ctx) req \<and> req_params req ''id'' = Some i \<and> i \<noteq> [])"
    for resp req i by (auto simp: delete_checks_def split: if_splits)
  ultimately show ?thesis
    by (fastforce simp: request_call_def request_effect_def post_checks_valid delete_checks_valid
      split: endpoint.split sum.split)
qed

lemma op_reply_Inl [simp]: "op_reply op (Inl e) = resp_server_error ''db error''"
  by (cases op) simp_all

section \<open>A thread alone\<close>

lemma job_done_stays: "job_done pc \<Longrightarrow> job_next eng ctx ev pc st = (pc, st)"
  by (cases pc; cases ev; cases st) simp_all

lemma job_end_done [simp]: "job_done (job_end srv op r)"
  by (cases op) simp_all

abbreviation job_step :: "'db sqlite \<Rightarrow> app_context \<Rightarrow> system_event \<Rightarrow> job_pc \<times> 'db http_server \<times> 'db
    \<Rightarrow> job_pc \<times> 'db http_server \<times> 'db" where
  "job_step eng ctx ev \<equiv> \<lambda>(pc, st). job_next eng ctx ev pc st"

lemma job_call:
  "(job_step eng ctx ev ^^ 3) (In_call op At_prepare, srv, db)
    = (case run_dml eng (op_prep_msg op) (op_step_msg op) (op_stmt op) db of (r, db') \<Rightarrow> (job_end srv op r, srv, db'))"
  by (auto simp: run_dml_def numeral_3_eq_3 job_done_stays split: sum.splits prod.splits option.splits)

lemma respond_op:
  assumes "request_effect ctx now req = Some op"
  shows "respond (app_routes eng ctx) now req db
    = (case run_dml eng (op_prep_msg op) (op_step_msg op) (op_stmt op) db of (r, db') \<Rightarrow> (op_reply op r, db'))"
  using assms
  by (auto simp: request_effect_def respond_serve serve_def post_is_insert insert_fragment_def delete_fragment_def
    delete_fragment_handler_def delete_checks_def split: endpoint.splits if_splits prod.splits sum.splits)

lemma request_no_purge: "request_effect ctx now req \<noteq> Some (Op_purge t)"
  by (auto simp: request_effect_def split: endpoint.splits)

lemma job_end_request: "request_effect ctx now req = Some op \<Longrightarrow>
    job_end srv op r = Sent (build_response (srv_cors_origin srv) (op_reply op r))"
  using request_no_purge[of ctx now req] by (cases op) auto

lemma funpow_5: "(f ^^ 5) x = (f ^^ 3) (f (f x))"
  by (simp add: numeral_eq_Suc funpow_swap1)

lemma job_stays_3: "job_done pc \<Longrightarrow> (job_step eng ctx ev ^^ n) (pc, st) = (pc, st)"
  by (induction n) (simp_all add: job_done_stays)

lemma alone_connection:
  assumes "srv_routes srv = app_routes eng ctx"
  shows "(job_step eng ctx (Sys_connection ticks ip now bufs) ^^ 5) (Begun, srv, db)
    = (case handle_connection srv ticks ip now bufs db of (b, st) \<Rightarrow> (Sent b, st))"
proof (cases "fst (allow ticks ip (srv_limiter srv))")
  case False
  then show ?thesis
    by (auto simp: funpow_5 job_stays_3 job_done_stays handle_cases refusal_def split: prod.splits)
next
  case True
  let ?srv = "srv\<lparr>srv_limiter := snd (allow ticks ip (srv_limiter srv))\<rparr>"
  have begun: "job_next eng ctx (Sys_connection ticks ip now bufs) Begun (srv, db) = (Admitted, ?srv, db)"
    using True by (cases "allow ticks ip (srv_limiter srv)") simp
  show ?thesis
  proof (cases "request_effect ctx now (read_and_parse bufs)")
    case None
    then show ?thesis
      using True begun respond_effect[of eng ctx now "read_and_parse bufs" db] assms
      by (simp add: funpow_5 job_stays_3 handle_cases)
  next
    case (Some op)
    then show ?thesis
      using True begun assms
      by (simp add: funpow_5 job_call handle_cases respond_op job_end_request split: prod.split)
  qed
qed

lemma alone_purge:
  "(job_step eng ctx (Sys_purge now) ^^ 5) (Begun, srv, db)
    = (case purge_expired eng now db of (r, db') \<Rightarrow> (Purged r, srv, db'))"
proof -
  have "(job_step eng ctx (Sys_purge now) ^^ 5) (Begun, srv, db)
      = (job_step eng ctx (Sys_purge now) ^^ 1) ((job_step eng ctx (Sys_purge now) ^^ 3)
          (In_call (Op_purge now) At_prepare, srv, db))"
    by (simp add: numeral_eq_Suc funpow_swap1)
  also have "\<dots> = (case purge_expired eng now db of (r, db') \<Rightarrow> (Purged r, srv, db'))"
    unfolding job_call by (simp add: purge_expired_def split: prod.split)
  finally show ?thesis .
qed

section \<open>Interleaving\<close>

record 'db threads =
  th_pcs :: "nat \<Rightarrow> job_pc"
  th_state :: "'db http_server \<times> 'db"

definition threads_start :: "'db http_server \<times> 'db \<Rightarrow> 'db threads" where
  "threads_start st = \<lparr>th_pcs = (\<lambda>_. Begun), th_state = st\<rparr>"

definition threads_next :: "'db sqlite \<Rightarrow> app_context \<Rightarrow> (nat \<Rightarrow> system_event) \<Rightarrow> nat \<Rightarrow> 'db threads \<Rightarrow> 'db threads" where
  "threads_next eng ctx jobs t th =
     (case job_next eng ctx (jobs t) (th_pcs th t) (th_state th) of (pc', st') \<Rightarrow>
        \<lparr>th_pcs = (th_pcs th)(t := pc'), th_state = st'\<rparr>)"

inductive threads_reach :: "'db sqlite \<Rightarrow> app_context \<Rightarrow> (nat \<Rightarrow> system_event) \<Rightarrow> 'db http_server \<times> 'db \<Rightarrow> 'db threads \<Rightarrow> bool"
  for eng ctx jobs st0 where
  threads_init: "threads_reach eng ctx jobs st0 (threads_start st0)"
| threads_step: "threads_reach eng ctx jobs st0 th \<Longrightarrow> threads_reach eng ctx jobs st0 (threads_next eng ctx jobs t th)"

definition threads_step_rel :: "'db sqlite \<Rightarrow> app_context \<Rightarrow> (nat \<Rightarrow> system_event) \<Rightarrow> 'db threads \<Rightarrow> 'db threads \<Rightarrow> bool" where
  "threads_step_rel eng ctx jobs th th' \<longleftrightarrow> (\<exists>t. th' = threads_next eng ctx jobs t th)"

lemma threads_reach_run:
  "(threads_step_rel eng ctx jobs)\<^sup>*\<^sup>* th th' \<Longrightarrow> threads_reach eng ctx jobs st0 th \<Longrightarrow> threads_reach eng ctx jobs st0 th'"
  by (induction rule: rtranclp_induct) (auto simp: threads_step_rel_def intro: threads_step)

text \<open>A schedule names the thread that makes the next step.\<close>

definition threads_run :: "'db sqlite \<Rightarrow> app_context \<Rightarrow> (nat \<Rightarrow> system_event) \<Rightarrow> nat list \<Rightarrow> 'db threads \<Rightarrow> 'db threads" where
  "threads_run eng ctx jobs sched th = fold (threads_next eng ctx jobs) sched th"

lemma threads_run_reach:
  "threads_reach eng ctx jobs st0 th \<Longrightarrow> threads_reach eng ctx jobs st0 (threads_run eng ctx jobs sched th)"
  by (induction sched arbitrary: th) (auto simp: threads_run_def intro: threads_step)

section \<open>What every interleaving preserves\<close>

text \<open>
  What is true of a thread at each point: the call that it is in is that of its request; and, with
  \<open>e\<close> for whether its step took effect, what it was or will be told.
\<close>

fun job_inv :: "app_context \<Rightarrow> string \<Rightarrow> system_event \<Rightarrow> bool \<Rightarrow> job_pc \<Rightarrow> bool" where
  "job_inv ctx cors ev e Begun = (\<not> e)"
| "job_inv ctx cors ev e Admitted = (\<not> e \<and> (\<forall>now. ev \<noteq> Sys_purge now))"
| "job_inv ctx cors ev e (In_call op At_prepare) = (\<not> e \<and> system_effect ctx ev = Some op)"
| "job_inv ctx cors ev e (In_call op At_step) = (\<not> e \<and> system_effect ctx ev = Some op)"
| "job_inv ctx cors ev e (In_call op At_changes) =
     ((e \<or> op_step_msg op = None) \<and> system_effect ctx ev = Some op)"
| "job_inv ctx cors ev e (In_call op (Answered r)) = False"
| "job_inv ctx cors ev e (Sent b) =
     (case system_effect ctx ev of
        None \<Rightarrow> \<not> e
      | Some op \<Rightarrow>
          if e then b \<in> range (\<lambda>n. build_response cors (op_reply op (Inr n)))
          else b \<in> {build_response cors resp_too_many_requests, build_response cors (resp_server_error ''db error'')})"
| "job_inv ctx cors ev e (Purged r) = ((e \<longrightarrow> \<not> isl r) \<and> (\<exists>now. ev = Sys_purge now))"

lemma job_inv_end:
  assumes "system_effect ctx ev = Some op"
  shows "job_inv ctx (srv_cors_origin srv) ev False (job_end srv op (Inl x))"
    and "e \<or> op_step_msg op = None \<Longrightarrow> job_inv ctx (srv_cors_origin srv) ev e (job_end srv op (Inr n))"
proof -
  have p: "\<exists>now'. ev = Sys_purge now'" if "op = Op_purge now" for now
    using assms that request_no_purge by (cases ev) auto
  show "job_inv ctx (srv_cors_origin srv) ev False (job_end srv op (Inl x))"
    using assms p by (cases op) auto
  show "job_inv ctx (srv_cors_origin srv) ev e (job_end srv op (Inr n))" if "e \<or> op_step_msg op = None"
    using assms p that by (cases op) auto
qed

text \<open>A step of a thread leaves the table alone, or is the one that makes its operation take effect.\<close>

definition job_moves :: "('db \<Rightarrow> store) \<Rightarrow> ('db \<Rightarrow> bool) \<Rightarrow> app_context \<Rightarrow> system_event \<Rightarrow> bool \<Rightarrow> job_pc \<Rightarrow> 'db http_server \<Rightarrow> 'db \<Rightarrow> 'db \<Rightarrow> bool" where
  "job_moves tbl ok ctx ev e pc' srv db db' \<longleftrightarrow> ok db' \<and>
     (tbl db' = tbl db \<and> job_inv ctx (srv_cors_origin srv) ev e pc'
      \<or> \<not> e \<and> job_inv ctx (srv_cors_origin srv) ev True pc'
        \<and> (\<exists>op. system_effect ctx ev = Some op \<and> tbl db' = store_apply op (tbl db)))"

context sqlite_store begin

lemma call_moves:
  assumes "ok db" "job_inv ctx (srv_cors_origin srv) ev e (In_call op pc)"
    and "job_next eng ctx ev (In_call op pc) (srv, db) = (pc', srv', db')"
  shows "srv' = srv \<and> job_moves tbl ok ctx ev e pc' srv db db'"
proof (cases pc)
  case At_prepare
  then show ?thesis
    using assms job_inv_end(1)[of ctx ev op srv] by (auto simp: job_moves_def split: sum.splits)
next
  case At_step
  have e: "\<not> e" and op: "system_effect ctx ev = Some op" using assms(2) At_step by simp_all
  obtain rc d where s: "sq_step eng (op_stmt op) db = (rc, d)" by fastforce
  note d = step_effect[OF assms(1) s]
  have eqs: "srv' = srv" "db' = d" using assms(3) At_step s by (auto split: sum.splits option.splits)
  show ?thesis
  proof (cases "rc = SQLITE_DONE")
    case True
    then have "pc' = In_call op At_changes"
      using assms(3) At_step s by (auto simp: check_rc_def split: option.splits)
    then show ?thesis using eqs d e op True by (auto simp: job_moves_def)
  next
    case False
    then have "check_rc rc m = Inl (Runtime_error (''SQLite error ('' @ m @ ''): '' @ show_int rc))" for m
      using d by (simp add: check_rc_def)
    then have "job_inv ctx (srv_cors_origin srv) ev e pc'"
      using assms(3) At_step s e op job_inv_end(1)[OF op] by (auto split: option.splits)
    then show ?thesis using eqs d False by (simp add: job_moves_def)
  qed
next
  case At_changes
  then show ?thesis
    using assms job_inv_end(2)[of ctx ev op e srv] by (auto simp: job_moves_def)
next
  case (Answered r)
  then show ?thesis using assms(2) by simp
qed

lemma job_inv_next:
  assumes "ok db" "srv_routes srv = app_routes eng ctx" "job_inv ctx (srv_cors_origin srv) ev e pc"
    and "job_next eng ctx ev pc (srv, db) = (pc', srv', db')"
  shows "srv_routes srv' = srv_routes srv \<and> srv_cors_origin srv' = srv_cors_origin srv \<and> job_moves tbl ok ctx ev e pc' srv db db'"
proof (cases pc)
  case Begun
  then show ?thesis
    using assms by (cases ev) (auto simp: job_moves_def refusal_def split: prod.splits option.splits if_splits)
next
  case Admitted
  then obtain ticks ip now bufs where "ev = Sys_connection ticks ip now bufs" using assms(3) by (cases ev) auto
  then show ?thesis
    using assms Admitted by (auto simp: job_moves_def split: option.splits)
next
  case (In_call op p)
  then show ?thesis using call_moves[of db ctx srv ev e op p] assms by simp
next
  case (Sent b)
  then have "pc' = pc" "srv' = srv" "db' = db" using assms(4) by (cases ev; simp)+
  then show ?thesis using assms(1,3) by (simp add: job_moves_def del: job_inv.simps)
next
  case (Purged r)
  then have "pc' = pc" "srv' = srv" "db' = db" using assms(4) by (cases ev; simp)+
  then show ?thesis using assms(1,3) by (simp add: job_moves_def del: job_inv.simps)
qed

end

text \<open>
  The invariant of all threads: \<open>eff\<close> lists those whose operation took effect, in order, and the table
  is what their operations make of it in that order.
\<close>

definition threads_inv :: "('db \<Rightarrow> store) \<Rightarrow> ('db \<Rightarrow> bool) \<Rightarrow> 'db sqlite \<Rightarrow> app_context \<Rightarrow> (nat \<Rightarrow> system_event)
    \<Rightarrow> 'db http_server \<times> 'db \<Rightarrow> nat list \<Rightarrow> 'db threads \<Rightarrow> bool" where
  "threads_inv tbl ok eng ctx jobs st0 eff th \<longleftrightarrow>
     ok (snd (th_state th)) \<and> srv_routes (fst (th_state th)) = app_routes eng ctx
     \<and> srv_cors_origin (fst (th_state th)) = srv_cors_origin (fst st0) \<and> distinct eff
     \<and> tbl (snd (th_state th)) = fold (\<lambda>t. store_apply (the (system_effect ctx (jobs t)))) eff (tbl (snd st0))
     \<and> (\<forall>t. job_inv ctx (srv_cors_origin (fst st0)) (jobs t) (t \<in> set eff) (th_pcs th t))"

context sqlite_store begin

lemma threads_inv_next:
  assumes inv: "threads_inv tbl ok eng ctx jobs st0 eff th"
  shows "\<exists>eff'. threads_inv tbl ok eng ctx jobs st0 eff' (threads_next eng ctx jobs t th)"
proof -
  obtain srv db where st: "th_state th = (srv, db)" by fastforce
  obtain pc' srv' db' where n: "job_next eng ctx (jobs t) (th_pcs th t) (srv, db) = (pc', srv', db')"
    by (metis prod_cases3)
  have next_eq: "threads_next eng ctx jobs t th = \<lparr>th_pcs = (th_pcs th)(t := pc'), th_state = (srv', db')\<rparr>"
    by (simp add: threads_next_def st n)
  have old: "ok db" "srv_routes srv = app_routes eng ctx" "srv_cors_origin srv = srv_cors_origin (fst st0)"
    "tbl db = fold (\<lambda>t. store_apply (the (system_effect ctx (jobs t)))) eff (tbl (snd st0))"
    "distinct eff" "\<forall>t. job_inv ctx (srv_cors_origin srv) (jobs t) (t \<in> set eff) (th_pcs th t)"
    using inv st by (simp_all add: threads_inv_def)
  note m = job_inv_next[OF old(1,2) old(6)[rule_format] n]
  then consider "tbl db' = tbl db" "job_inv ctx (srv_cors_origin srv) (jobs t) (t \<in> set eff) pc'"
    | op where "t \<notin> set eff" "job_inv ctx (srv_cors_origin srv) (jobs t) True pc'"
        "system_effect ctx (jobs t) = Some op" "tbl db' = store_apply op (tbl db)"
    by (auto simp: job_moves_def)
  then show ?thesis
  proof cases
    case 1
    then have "threads_inv tbl ok eng ctx jobs st0 eff (threads_next eng ctx jobs t th)"
      using m old by (simp add: threads_inv_def next_eq job_moves_def)
    then show ?thesis ..
  next
    case 2
    then have "threads_inv tbl ok eng ctx jobs st0 (eff @ [t]) (threads_next eng ctx jobs t th)"
      using m old by (simp add: threads_inv_def next_eq job_moves_def)
    then show ?thesis ..
  qed
qed

lemma threads_reach_inv:
  assumes "threads_reach eng ctx jobs (srv, db) th" "ok db" "srv_routes srv = app_routes eng ctx"
  shows "\<exists>eff. threads_inv tbl ok eng ctx jobs (srv, db) eff th"
  using assms(1)
proof (induction rule: threads_reach.induct)
  case threads_init
  have "threads_inv tbl ok eng ctx jobs (srv, db) [] (threads_start (srv, db))"
    using assms(2,3) by (simp add: threads_inv_def threads_start_def)
  then show ?case ..
next
  case (threads_step th t)
  then show ?case using threads_inv_next by blast
qed

end

section \<open>Progress\<close>

lemma job_left_next:
  assumes "job_inv ctx cors ev e pc"
  shows "job_left ev (fst (job_next eng ctx ev pc (srv, db))) \<le> job_left ev pc - 1"
proof -
  have done0: "job_left ev (job_end srv op r) = 0" for op r by (cases op) simp_all
  show ?thesis
  proof (cases pc)
    case (In_call op p)
    then show ?thesis
      using assms by (cases p) (auto simp: done0 split: sum.splits prod.splits option.splits)
  qed (use assms in \<open>cases ev; auto split: prod.splits option.splits\<close>)+
qed

lemma job_left_0: "job_inv ctx cors ev e pc \<Longrightarrow> job_left ev pc = 0 \<Longrightarrow> job_done pc"
  by (cases "(ev, pc)" rule: job_left.cases) (auto elim: dml_left.elims)

lemma job_left_5: "job_left ev pc \<le> 5"
proof -
  have "dml_left p \<le> 5" for p by (cases p) simp_all
  then show ?thesis by (cases "(ev, pc)" rule: job_left.cases) auto
qed

section \<open>The effects, one after the other\<close>

text \<open>The abstract store is itself a store machine.\<close>

interpretation abs: store_machine store_apply "\<lambda>s. s" store_wf Some
proof
  fix s op
  assume "store_wf s"
  then show "store_wf (store_apply op s)"
    by (cases op) (simp_all add: store_wf_insert store_wf_delete store_wf_purge)
qed simp_all

lemma job_inv_effect: "job_inv ctx cors ev True pc \<Longrightarrow> \<exists>op. system_effect ctx ev = Some op"
  by (cases "(ctx, cors, ev, True, pc)" rule: job_inv.cases) (auto split: option.splits)

lemma endpoint_post: "endpoint_of m segs = Ep_post \<longleftrightarrow> m = ''POST'' \<and> segs = ['''', ''api'', ''fragments'']"
  by (auto simp: endpoint_of_def split: list.splits if_splits)

lemma insert_request:
  assumes "system_effect ctx ev = Some (Op_insert g)"
  shows "\<exists>ticks ip now bufs. ev = Sys_connection ticks ip now bufs \<and> post_valid ctx (read_and_parse bufs)
    \<and> g = posted now (read_and_parse bufs) \<and> req_method (read_and_parse bufs) = ''POST''
    \<and> split (req_path (read_and_parse bufs)) (CHR ''/'') = ['''', ''api'', ''fragments'']"
  using assms by (cases ev) (auto simp: request_effect_def endpoint_post split: endpoint.splits if_splits)

context sqlite_store begin

lemma threads_effects:
  assumes "threads_reach eng ctx jobs (srv, db) th" "ok db" "srv_routes srv = app_routes eng ctx"
  obtains eff where "distinct eff" "\<forall>t \<in> set eff. \<exists>op. system_effect ctx (jobs t) = Some op"
    and "tbl (snd (th_state th)) = fold store_apply (map (\<lambda>t. the (system_effect ctx (jobs t))) eff) (tbl db)"
    and "\<forall>t. job_inv ctx (srv_cors_origin srv) (jobs t) (t \<in> set eff) (th_pcs th t)"
proof -
  obtain eff where inv: "threads_inv tbl ok eng ctx jobs (srv, db) eff th"
    using threads_reach_inv[OF assms] by blast
  show ?thesis
  proof (rule that[of eff])
    show "\<forall>t \<in> set eff. \<exists>op. system_effect ctx (jobs t) = Some op"
    proof
      fix t assume "t \<in> set eff"
      then have "job_inv ctx (srv_cors_origin srv) (jobs t) True (th_pcs th t)"
        using inv unfolding threads_inv_def by (metis fst_conv)
      then show "\<exists>op. system_effect ctx (jobs t) = Some op" by (rule job_inv_effect)
    qed
  qed (use inv in \<open>simp_all add: threads_inv_def fold_map comp_def\<close>)
qed

lemma threads_kept:
  assumes "threads_reach eng ctx jobs (srv, db) th" "ok db" "srv_routes srv = app_routes eng ctx"
    and "tbl db i = Some f" "\<forall>t e. system_effect ctx (jobs t) = Some e \<longrightarrow> spares i f e"
  shows "tbl (snd (th_state th)) i = Some f"
proof -
  obtain eff where eff: "\<forall>t \<in> set eff. \<exists>op. system_effect ctx (jobs t) = Some op"
    "tbl (snd (th_state th)) = fold store_apply (map (\<lambda>t. the (system_effect ctx (jobs t))) eff) (tbl db)"
    by (rule threads_effects[OF assms(1-3)])
  show ?thesis
    unfolding eff(2) by (rule abs.run_kept) (use ok_wf[OF assms(2)] assms(4,5) eff(1) in auto)
qed

lemma threads_origin:
  assumes "threads_reach eng ctx jobs (srv, db) th" "ok db" "srv_routes srv = app_routes eng ctx"
    and "tbl (snd (th_state th)) i = Some f"
  shows "tbl db i = Some f
    \<or> (\<exists>t g. system_effect ctx (jobs t) = Some (Op_insert g) \<and> bind_fragment g = f \<and> th_pcs th t \<noteq> Begun)"
proof -
  obtain eff where eff: "\<forall>t \<in> set eff. \<exists>op. system_effect ctx (jobs t) = Some op"
    "tbl (snd (th_state th)) = fold store_apply (map (\<lambda>t. the (system_effect ctx (jobs t))) eff) (tbl db)"
    and inv: "\<forall>t. job_inv ctx (srv_cors_origin srv) (jobs t) (t \<in> set eff) (th_pcs th t)"
    by (rule threads_effects[OF assms(1-3)])
  have "th_pcs th t \<noteq> Begun" if "t \<in> set eff" for t
    using that inv[rule_format, of t] by auto
  then show ?thesis
    using abs.run_origin[OF ok_wf[OF assms(2)] assms(4)[unfolded eff(2)]] eff(1) by fastforce
qed

lemma threads_posted:
  assumes "threads_reach eng ctx jobs (srv, db) th" "ok db" "srv_routes srv = app_routes eng ctx"
    and "tbl (snd (th_state th)) i = Some f"
  shows "tbl db i = Some f \<or> (\<exists>t ticks ip now bufs. jobs t = Sys_connection ticks ip now bufs
    \<and> post_valid ctx (read_and_parse bufs) \<and> f = bind_fragment (posted now (read_and_parse bufs)) \<and> timestamp f = now)"
  using threads_origin[OF assms]
proof (elim disjE exE conjE)
  fix t g assume g: "system_effect ctx (jobs t) = Some (Op_insert g)" "bind_fragment g = f"
  with insert_request[OF g(1)] show ?thesis by (fastforce simp: bind_fragment_def posted_def)
qed simp

text \<open>What no operation removes stays from any point of a run on.\<close>

lemma threads_next_kept:
  assumes "threads_reach eng ctx jobs (srv, db) th" "ok db" "srv_routes srv = app_routes eng ctx"
    and "tbl (snd (th_state th)) i = Some f" "\<forall>t e. system_effect ctx (jobs t) = Some e \<longrightarrow> spares i f e"
  shows "tbl (snd (th_state (threads_next eng ctx jobs t th))) i = Some f"
proof -
  obtain eff where inv: "threads_inv tbl ok eng ctx jobs (srv, db) eff th"
    using threads_reach_inv[OF assms(1-3)] by blast
  obtain srv1 db1 where st: "th_state th = (srv1, db1)" by fastforce
  obtain pc' srv' db' where n: "job_next eng ctx (jobs t) (th_pcs th t) (srv1, db1) = (pc', srv', db')"
    by (metis prod_cases3)
  have "job_moves tbl ok ctx (jobs t) (t \<in> set eff) pc' srv1 db1 db'"
    using job_inv_next[OF _ _ _ n, of "t \<in> set eff"] inv st by (simp add: threads_inv_def)
  then show ?thesis
    using assms(4,5) store_apply_spares[of "tbl db1" i f] by (auto simp: job_moves_def threads_next_def st n)
qed

text \<open>
  A client that posted under a free id, and was told neither 429 nor 500, has its fragment stored, as
  long as nobody else posts under that id or removes it.
\<close>

lemma threads_stored:
  assumes "threads_reach eng ctx jobs (srv, db) th" "ok db" "srv_routes srv = app_routes eng ctx"
    and "system_effect ctx (jobs t) = Some (Op_insert g)" "th_pcs th t = Sent b"
    and "b \<notin> {refusal srv, build_response (srv_cors_origin srv) (resp_server_error ''db error'')}"
    and "tbl db i = None" "i = c_str (frag_id g)"
    and "\<And>u g'. u \<noteq> t \<Longrightarrow> system_effect ctx (jobs u) = Some (Op_insert g') \<Longrightarrow> c_str (frag_id g') \<noteq> i"
    and "\<And>u e. system_effect ctx (jobs u) = Some e \<Longrightarrow> spares i (bind_fragment g) e"
  shows "tbl (snd (th_state th)) i = Some (bind_fragment g)"
proof -
  let ?op = "\<lambda>u. the (system_effect ctx (jobs u))"
  obtain eff where eff: "distinct eff" "\<forall>t \<in> set eff. \<exists>op. system_effect ctx (jobs t) = Some op"
    "tbl (snd (th_state th)) = fold store_apply (map ?op eff) (tbl db)"
    and inv: "\<forall>t. job_inv ctx (srv_cors_origin srv) (jobs t) (t \<in> set eff) (th_pcs th t)"
    by (rule threads_effects[OF assms(1-3)])
  have "t \<in> set eff"
    using inv[rule_format, of t] assms(4-6) by (simp add: refusal_def split: if_splits)
  then obtain us vs where split: "eff = us @ t # vs" by (meson split_list)
  have op: "?op u = e \<Longrightarrow> system_effect ctx (jobs u) = Some e" if "u \<in> set us \<union> set vs" for u e
    using eff(2) split that by force
  have "fold store_apply (map ?op us @ Op_insert g # map ?op vs) (tbl db) i = Some (bind_fragment g)"
  proof (rule fold_store_inserted)
    fix g' assume "Op_insert g' \<in> set (map ?op us)"
    then obtain u where "u \<in> set us" "?op u = Op_insert g'" by force
    then show "c_str (frag_id g') \<noteq> i" using op[of u] assms(9)[of u g'] eff(1) split by auto
  next
    fix e assume "e \<in> set (map ?op vs)"
    then obtain u where "u \<in> set vs" "?op u = e" by auto
    then show "spares i (bind_fragment g) e" using op[of u] assms(10) by auto
  qed (use assms(7,8) in simp_all)
  then show ?thesis by (simp add: eff(3) split assms(4))
qed

end

section \<open>Rates\<close>

fun arrival :: "system_event \<Rightarrow> int \<times> string" where
  "arrival (Sys_connection ticks ip now bufs) = (ticks, ip)"
| "arrival (Sys_purge now) = (0, [])"

definition is_connection :: "system_event \<Rightarrow> bool" where
  "is_connection ev \<longleftrightarrow> (\<forall>now. ev \<noteq> Sys_purge now)"

text \<open>The threads of an address that are permitted, at work or with an answer other than the refusal.\<close>

definition served :: "(nat \<Rightarrow> system_event) \<Rightarrow> 'db http_server \<Rightarrow> string \<Rightarrow> (nat \<Rightarrow> job_pc) \<Rightarrow> nat set" where
  "served jobs srv ip pcs = {t. is_connection (jobs t) \<and> snd (arrival (jobs t)) = ip \<and> pcs t \<notin> {Begun, Sent (refusal srv)}}"

lemma job_next_later:
  assumes "job_next eng ctx ev pc (srv, db) = (pc', srv', db')" "pc \<noteq> Begun \<or> \<not> is_connection ev"
  shows "srv' = srv" "pc' \<noteq> Begun" "\<And>b. pc = Sent b \<Longrightarrow> pc' = Sent b"
proof -
  have e: "job_end srv op r \<noteq> Begun" for op r by (cases op) simp_all
  show "srv' = srv" "pc' \<noteq> Begun" "\<And>b. pc = Sent b \<Longrightarrow> pc' = Sent b"
    using assms e
    by (cases pc; cases ev; auto simp: is_connection_def split: prod.splits option.splits dml_pc.splits)+
qed

text \<open>\<open>log\<close> lists the connections in the order of their calls of \<open>allow\<close>.\<close>

definition rate_inv :: "(nat \<Rightarrow> system_event) \<Rightarrow> 'db http_server \<Rightarrow> string \<Rightarrow> nat list \<Rightarrow> 'db threads \<Rightarrow> bool" where
  "rate_inv jobs srv ip log th \<longleftrightarrow>
     srv_cors_origin (fst (th_state th)) = srv_cors_origin srv
     \<and> srv_limiter (fst (th_state th)) = snd (rl_run (srv_limiter srv) (map (arrival \<circ> jobs) log))
     \<and> set log = {t. is_connection (jobs t) \<and> th_pcs th t \<noteq> Begun}
     \<and> card (served jobs srv ip (th_pcs th)) \<le> granted ip (srv_limiter srv) (map (arrival \<circ> jobs) log)"

lemma served_arrival:
  assumes "finite (served jobs srv ip pcs)" "jobs t = Sys_connection ticks j now bufs"
  shows "card (served jobs srv ip (pcs(t := if b then Admitted else Sent (refusal srv))))
    \<le> card (served jobs srv ip pcs) + (if b \<and> j = ip then 1 else 0)"
proof -
  let ?new = "if b \<and> j = ip then {t} else {}"
  have "served jobs srv ip (pcs(t := if b then Admitted else Sent (refusal srv))) \<subseteq> served jobs srv ip pcs \<union> ?new"
    using assms(2) by (auto simp: served_def split: if_splits)
  then have "card (served jobs srv ip (pcs(t := if b then Admitted else Sent (refusal srv)))) \<le> card (served jobs srv ip pcs \<union> ?new)"
    by (rule card_mono[rotated]) (use assms(1) in simp)
  also have "\<dots> \<le> card (served jobs srv ip pcs) + (if b \<and> j = ip then 1 else 0)"
    by (rule order_trans[OF card_Un_le]) auto
  finally show ?thesis .
qed

lemma rate_inv_next:
  assumes inv: "rate_inv jobs srv ip log th"
  shows "\<exists>log'. rate_inv jobs srv ip log' (threads_next eng ctx jobs t th)"
proof -
  obtain srv1 db where st: "th_state th = (srv1, db)" by fastforce
  obtain pc' srv' db' where n: "job_next eng ctx (jobs t) (th_pcs th t) (srv1, db) = (pc', srv', db')"
    by (metis prod_cases3)
  let ?pcs = "(th_pcs th)(t := pc')"
  have next_eq: "threads_next eng ctx jobs t th = \<lparr>th_pcs = ?pcs, th_state = (srv', db')\<rparr>"
    by (simp add: threads_next_def st n)
  have old: "srv_cors_origin srv1 = srv_cors_origin srv"
    "srv_limiter srv1 = snd (rl_run (srv_limiter srv) (map (arrival \<circ> jobs) log))"
    "set log = {t. is_connection (jobs t) \<and> th_pcs th t \<noteq> Begun}"
    "card (served jobs srv ip (th_pcs th)) \<le> granted ip (srv_limiter srv) (map (arrival \<circ> jobs) log)"
    using inv st by (simp_all add: rate_inv_def)
  have fin: "finite (served jobs srv ip (th_pcs th))"
  proof (rule finite_subset)
    show "served jobs srv ip (th_pcs th) \<subseteq> set log" by (auto simp: old(3) served_def)
  qed simp
  show ?thesis
  proof (cases "th_pcs th t = Begun \<and> is_connection (jobs t)")
    case False
    then have later: "srv' = srv1" "pc' \<noteq> Begun" "\<And>b. th_pcs th t = Sent b \<Longrightarrow> pc' = Sent b"
      using job_next_later[OF n] by blast+
    have "served jobs srv ip ?pcs \<subseteq> served jobs srv ip (th_pcs th)"
      using False later by (auto simp: served_def)
    then have "card (served jobs srv ip ?pcs) \<le> card (served jobs srv ip (th_pcs th))" by (rule card_mono[OF fin])
    moreover have "set log = {u. is_connection (jobs u) \<and> ?pcs u \<noteq> Begun}"
      using False later(2) old(3) by auto
    ultimately have "rate_inv jobs srv ip log (threads_next eng ctx jobs t th)"
      using old later(1) by (simp add: rate_inv_def next_eq)
    then show ?thesis ..
  next
    case True
    then obtain ticks j now bufs where ev: "jobs t = Sys_connection ticks j now bufs"
      by (cases "jobs t") (auto simp: is_connection_def)
    let ?a = "allow ticks j (srv_limiter srv1)"
    have n': "pc' = (if fst ?a then Admitted else Sent (refusal srv))" "srv' = srv1\<lparr>srv_limiter := snd ?a\<rparr>"
      using n True ev old(1) by (auto simp: refusal_def split: prod.splits)
    have "card (served jobs srv ip ?pcs) \<le> card (served jobs srv ip (th_pcs th)) + (if fst ?a \<and> j = ip then 1 else 0)"
      unfolding n'(1) by (rule served_arrival[OF fin ev])
    then have "rate_inv jobs srv ip (log @ [t]) (threads_next eng ctx jobs t th)"
      using old True n' ev by (auto simp: rate_inv_def next_eq rl_run_append granted_append case_prod_beta Let_def)
    then show ?thesis ..
  qed
qed

lemma threads_reach_rate:
  assumes "threads_reach eng ctx jobs (srv, db) th"
  shows "\<exists>log. rate_inv jobs srv ip log th"
  using assms
proof (induction rule: threads_reach.induct)
  case threads_init
  have "rate_inv jobs srv ip [] (threads_start (srv, db))"
    by (simp add: rate_inv_def threads_start_def served_def)
  then show ?case ..
next
  case (threads_step th t)
  then show ?case using rate_inv_next by blast
qed

section \<open>Sample threads\<close>

lemma threads_repeat:
  "threads_run eng ctx jobs (replicate n t) th =
    (case (job_step eng ctx (jobs t) ^^ n) (th_pcs th t, th_state th) of
       (pc', st') \<Rightarrow> \<lparr>th_pcs = (th_pcs th)(t := pc'), th_state = st'\<rparr>)"
proof (induction n arbitrary: th)
  case 0
  then show ?case by (cases th) (simp add: threads_run_def fun_eq_iff)
next
  case (Suc n)
  obtain pc' st' where "job_next eng ctx (jobs t) (th_pcs th t) (th_state th) = (pc', st')" by (metis surj_pair)
  then show ?case
    using Suc.IH[of "threads_next eng ctx jobs t th"]
    by (simp add: threads_run_def threads_next_def funpow_swap1 fun_eq_iff split: prod.split)
qed

lemma threads_run_append:
  "threads_run eng ctx jobs (xs @ ys) th = threads_run eng ctx jobs ys (threads_run eng ctx jobs xs th)"
  by (simp add: threads_run_def)

text \<open>The calls on the reference engine, when nothing fails.\<close>

lemma ref_calls:
  "ref_prep_rc db = SQLITE_OK \<Longrightarrow> dml_next ref_engine op At_prepare db = (At_step, db)"
  "ref_faults db = [] \<Longrightarrow> dml_next ref_engine op At_step db = (At_changes, ref_effect (op_stmt op) db)"
  "dml_next ref_engine op At_changes db = (Answered (Inr (ref_changes db)), db)"
  by (simp_all add: ref_engine_def ref_step_def check_rc_def split: option.split)

lemma post_to_changes:
  assumes "fst (allow ticks ip (srv_limiter srv))" "arrives bufs (post_bytes h f)" "valid_token ctx h" "postable ctx f"
    and "ref_prep_rc db = SQLITE_OK" "ref_faults db = []"
  shows "(job_step ref_engine ctx (Sys_connection ticks ip now bufs) ^^ 4) (Begun, srv, db)
    = (In_call (Op_insert (f\<lparr>timestamp := now\<rparr>)) At_changes, srv\<lparr>srv_limiter := snd (allow ticks ip (srv_limiter srv))\<rparr>,
       ref_effect (Insert_or_ignore (bind_fragment (f\<lparr>timestamp := now\<rparr>))) db)"
proof -
  have "job_next ref_engine ctx (Sys_connection ticks ip now bufs) Begun (srv, db)
      = (Admitted, srv\<lparr>srv_limiter := snd (allow ticks ip (srv_limiter srv))\<rparr>, db)"
    using assms(1) by (cases "allow ticks ip (srv_limiter srv)") simp
  then show ?thesis
    using assms(5,6) by (simp add: numeral_eq_Suc post_effect[OF assms(2-4)] ref_calls del: dml_next.simps)
qed

text \<open>Two clients: the first posts another payload under the id of the sample fragment, the second a new id.\<close>

definition clash_fragment :: fragment where
  "clash_fragment = sample_fragment\<lparr>payload := ''QkI=''\<rparr>"

definition other_fragment :: fragment where
  "other_fragment = sample_fragment\<lparr>frag_id := ''m-1''\<rparr>"

definition sample_jobs :: "nat \<Rightarrow> system_event" where
  "sample_jobs t = (if t = 0 then Sys_connection 0 ''a'' 1700000000 [post_bytes ''t'' clash_fragment]
     else if t = 1 then Sys_connection 0 ''b'' 1700000000 [post_bytes ''t'' other_fragment]
     else Sys_purge 1700000000)"

lemma sample_jobs_rest: "t \<noteq> 0 \<Longrightarrow> t \<noteq> 1 \<Longrightarrow> sample_jobs t = Sys_purge 1700000000"
  by (simp add: sample_jobs_def)

lemma clash_body: "length (post_body clash_fragment) = 87" "length (post_body other_fragment) = 87"
  by (simp_all add: post_body_def post_members_def object_text_def member_text_def quoted_def json_escape_char_def
    sample_fragment_def clash_fragment_def other_fragment_def show_int_def show_nat.simps digit_char_def)

lemma clash_postable: "postable sample_ctx clash_fragment" "postable sample_ctx other_fragment"
  using clash_body
  by (simp_all add: postable_def sample_ctx_def)
    (simp_all add: clash_fragment_def other_fragment_def sample_fragment_def frag_scannable_def scannable_def
      json_plain_def frag_keys_def int64_range_def LLONG_MIN_def LLONG_MAX_def filled_def nul_free_def)

lemma clash_arrives:
  "arrives [post_bytes ''t'' clash_fragment] (post_bytes ''t'' clash_fragment)"
  "arrives [post_bytes ''t'' other_fragment] (post_bytes ''t'' other_fragment)"
  by (simp_all add: arrives_def post_bytes_def render_request_def clash_body head_text_def header_line_def
    render_target_def MAX_REQUEST_BYTES_def path_keep_def uri_keep_def isdigit_def show_nat.simps)

lemma sample_jobs_effects:
  "system_effect sample_ctx (sample_jobs 0) = Some (Op_insert clash_fragment)"
  "system_effect sample_ctx (sample_jobs 1) = Some (Op_insert other_fragment)"
  by (simp_all add: sample_jobs_def post_effect[OF clash_arrives(1) sample_token clash_postable(1)]
    post_effect[OF clash_arrives(2) sample_token clash_postable(2)])
    (simp_all add: clash_fragment_def other_fragment_def sample_fragment_def)

section \<open>Properties\<close>

text \<open>
  Undisturbed, the steps of a thread are \<open>handle_connection\<close>, or the purge: five of them end it,
  with the same answer, limiter and database.
\<close>

theorem thread_alone:
  assumes "srv_routes srv = app_routes eng ctx"
  shows "(job_step eng ctx ev ^^ 5) (Begun, srv, db) =
    (case ev of
       Sys_connection ticks ip now bufs \<Rightarrow>
         (Sent (fst (handle_connection srv ticks ip now bufs db)), system_step eng ev (srv, db))
     | Sys_purge now \<Rightarrow> (Purged (fst (purge_expired eng now db)), system_step eng ev (srv, db)))"
  using alone_connection[OF assms] alone_purge[of eng ctx]
  by (cases ev) (simp_all del: job_next.simps split: prod.split)

theorem thread_alone_witness:
  "(job_step ref_engine sample_ctx (Sys_purge 5) ^^ 5) (Begun, sample_server, sample_db)
    = (Purged (fst (purge_expired ref_engine 5 sample_db)), system_step ref_engine (Sys_purge 5) (sample_server, sample_db))"
  using thread_alone[OF sample_server_routes, of "Sys_purge 5" sample_db] by (simp only: system_event.case)

text \<open>
  C13. However the threads interleave, the table is the result of some of the operations that their
  requests ask for, each once and one after the other.  A client whose operation is not among them is
  refused (429) or told of an error (500); one whose operation is among them is told neither, but
  what it is told need not be the result of its own operation.
\<close>

theorem threads_sequential:
  assumes "sqlite_store eng tbl ok" "ok db" "srv_routes srv = app_routes eng ctx"
    and "threads_reach eng ctx jobs (srv, db) th"
  shows "\<exists>eff. distinct eff
    \<and> tbl (snd (th_state th)) = fold store_apply (map (\<lambda>t. the (system_effect ctx (jobs t))) eff) (tbl db)
    \<and> (\<forall>t b op. th_pcs th t = Sent b \<and> system_effect ctx (jobs t) = Some op \<longrightarrow>
         (if t \<in> set eff then b \<in> range (\<lambda>n. build_response (srv_cors_origin srv) (op_reply op (Inr n)))
          else b \<in> {refusal srv, build_response (srv_cors_origin srv) (resp_server_error ''db error'')}))"
proof -
  obtain eff where eff: "distinct eff"
    "tbl (snd (th_state th)) = fold store_apply (map (\<lambda>t. the (system_effect ctx (jobs t))) eff) (tbl db)"
    and inv: "\<forall>t. job_inv ctx (srv_cors_origin srv) (jobs t) (t \<in> set eff) (th_pcs th t)"
    by (rule sqlite_store.threads_effects[OF assms(1,4,2,3)])
  have "\<forall>t b op. th_pcs th t = Sent b \<and> system_effect ctx (jobs t) = Some op \<longrightarrow>
      (if t \<in> set eff then b \<in> range (\<lambda>n. build_response (srv_cors_origin srv) (op_reply op (Inr n)))
       else b \<in> {refusal srv, build_response (srv_cors_origin srv) (resp_server_error ''db error'')})"
  proof (intro allI impI, elim conjE)
    fix t b op assume "th_pcs th t = Sent b" "system_effect ctx (jobs t) = Some op"
    then show "if t \<in> set eff then b \<in> range (\<lambda>n. build_response (srv_cors_origin srv) (op_reply op (Inr n)))
        else b \<in> {refusal srv, build_response (srv_cors_origin srv) (resp_server_error ''db error'')}"
      using inv[rule_format, of t] by (simp only: job_inv.simps option.case refusal_def)
  qed
  with eff show ?thesis by blast
qed

definition sample_start :: "ref_db threads" where
  "sample_start = threads_start (sample_server, sample_db)"

lemma sample_reach:
  "threads_reach ref_engine sample_ctx jobs (sample_server, sample_db) (threads_run ref_engine sample_ctx jobs sched sample_start)"
  unfolding sample_start_def by (rule threads_run_reach[OF threads_init])

theorem threads_sequential_witness:
  "\<exists>eff. distinct eff
    \<and> ref_tbl (snd (th_state (threads_run ref_engine sample_ctx sample_jobs [0, 1, 2, 0, 1, 0] sample_start)))
      = fold store_apply (map (\<lambda>t. the (system_effect sample_ctx (sample_jobs t))) eff) (ref_tbl sample_db)"
  using threads_sequential[OF ref.sqlite_store_axioms sample_db_ok(1) sample_server_routes
    sample_reach[of sample_jobs "[0, 1, 2, 0, 1, 0]"]] by blast

text \<open>
  C16. The server answers at most twice the configured number of connections of an address within
  any sixty seconds other than by the refusal 429, in every interleaving and whatever the other
  clients do.
\<close>

theorem threads_rate_bound:
  assumes "threads_reach eng ctx jobs (srv, db) th" "rl_wf (srv_limiter srv)" "0 < rl_max (srv_limiter srv)"
    and "\<forall>t ticks now bufs. jobs t = Sys_connection ticks ip now bufs \<longrightarrow> T \<le> ticks \<and> ticks < T + 60000000000"
  shows "card (served jobs srv ip (th_pcs th)) \<le> 2 * nat (rl_max (srv_limiter srv))"
proof -
  obtain log where log: "set log = {t. is_connection (jobs t) \<and> th_pcs th t \<noteq> Begun}"
    "card (served jobs srv ip (th_pcs th)) \<le> granted ip (srv_limiter srv) (map (arrival \<circ> jobs) log)"
    using threads_reach_rate[OF assms(1), of ip] unfolding rate_inv_def by blast
  have "T \<le> fst (arrival (jobs t)) \<and> fst (arrival (jobs t)) < T + WINDOW"
    if "snd (arrival (jobs t)) = ip" "is_connection (jobs t)" for t
    using that assms(4)[rule_format, of t] by (cases "jobs t") (simp_all add: is_connection_def)
  then have "\<forall>(t, j) \<in> set (map (arrival \<circ> jobs) log). j = ip \<longrightarrow> T \<le> t \<and> t < T + WINDOW"
    using log(1) by (auto simp: case_prod_beta)
  from granted_in_minute[OF assms(3) this] log(2) assms(2) show ?thesis
    by (auto simp: rl_wf_def dest: spec[of _ ip])
qed

theorem threads_rate_bound_witness:
  "card (served sample_jobs sample_server ''a'' (th_pcs (threads_run ref_engine sample_ctx sample_jobs [0, 1, 2, 0, 0] sample_start)))
    \<le> 2 * nat (rl_max (srv_limiter sample_server))"
proof (rule threads_rate_bound[where T = 0, OF sample_reach])
  show "\<forall>t ticks now bufs. sample_jobs t = Sys_connection ticks ''a'' now bufs \<longrightarrow> 0 \<le> ticks \<and> ticks < 0 + 60000000000"
    by (auto simp: sample_jobs_def split: if_splits)
qed (simp_all add: sample_server_def register_routes_def add_route_def http_server_new_def rl_wf_new, simp add: rl_new_def)

text \<open>
  C6. A fragment stays in the table, unchanged, in every interleaving of any connections and purges,
  whatever bytes the clients send, as long as none of them is an authorised deletion of its id or a
  purge at a time when it has expired.
\<close>

theorem fragment_kept:
  assumes "sqlite_store eng tbl ok" "ok db" "srv_routes srv = app_routes eng ctx"
    and "threads_reach eng ctx jobs (srv, db) th" "tbl db i = Some f"
    and "\<forall>t e. system_effect ctx (jobs t) = Some e \<longrightarrow> spares i f e"
  shows "tbl (snd (th_state th)) i = Some f"
  by (rule sqlite_store.threads_kept[OF assms(1,4,2,3,5,6)])

theorem fragment_kept_witness:
  "ref_tbl (snd (th_state (threads_run ref_engine sample_ctx sample_jobs [0, 1, 2, 0, 2, 0, 0, 1, 2] sample_start))) ''m-0''
    = Some sample_fragment"
proof (rule fragment_kept[OF ref.sqlite_store_axioms sample_db_ok(1) sample_server_routes sample_reach])
  show "\<forall>t e. system_effect sample_ctx (sample_jobs t) = Some e \<longrightarrow> spares ''m-0'' sample_fragment e"
  proof (intro allI impI)
    fix t e assume e: "system_effect sample_ctx (sample_jobs t) = Some e"
    consider "t = 0" | "t = 1" | "t \<noteq> 0" "t \<noteq> 1" by blast
    then show "spares ''m-0'' sample_fragment e"
      using e sample_jobs_effects sample_jobs_rest[of t] by cases (auto simp: sample_expired)
  qed
qed (simp add: sample_tbl)

text \<open>
  C7. In every interleaving, whatever is in the table was there before or was posted: over a
  connection whose bytes parse to an authorised request that passed every check, with the server's
  time as its time stamp.
\<close>

theorem fragment_origin:
  assumes "sqlite_store eng tbl ok" "ok db" "srv_routes srv = app_routes eng ctx"
    and "threads_reach eng ctx jobs (srv, db) th" "tbl (snd (th_state th)) i = Some f"
  shows "tbl db i = Some f \<or> (\<exists>t ticks ip now bufs. jobs t = Sys_connection ticks ip now bufs
    \<and> post_valid ctx (read_and_parse bufs) \<and> f = bind_fragment (posted now (read_and_parse bufs)) \<and> timestamp f = now)"
  by (rule sqlite_store.threads_posted[OF assms(1,4,2,3,5)])

theorem fragment_origin_witness:
  "ref_tbl sample_db ''m-0'' = Some sample_fragment \<or> (\<exists>t ticks ip now bufs.
     sample_jobs t = Sys_connection ticks ip now bufs
     \<and> post_valid sample_ctx (read_and_parse bufs)
     \<and> sample_fragment = bind_fragment (posted now (read_and_parse bufs)) \<and> timestamp sample_fragment = now)"
  by (rule fragment_origin[OF ref.sqlite_store_axioms sample_db_ok(1) sample_server_routes sample_reach[of sample_jobs "[]"]])
    (simp add: threads_run_def sample_start_def threads_start_def sample_tbl)

lemma race_data:
  "clash_fragment\<lparr>timestamp := 1700000000\<rparr> = clash_fragment" "other_fragment\<lparr>timestamp := 1700000000\<rparr> = other_fragment"
  "bind_fragment clash_fragment = clash_fragment" "bind_fragment other_fragment = other_fragment"
  "ref_prep_rc sample_db = SQLITE_OK" "ref_faults sample_db = []"
  "sample_jobs 0 = Sys_connection 0 ''a'' 1700000000 [post_bytes ''t'' clash_fragment]"
  "sample_jobs 1 = Sys_connection 0 ''b'' 1700000000 [post_bytes ''t'' other_fragment]"
  using clash_postable
  by (simp_all add: postable_def bind_nul_free sample_db_def ref_empty_def sample_jobs_def)
    (simp_all add: clash_fragment_def other_fragment_def sample_fragment_def)

definition race_db :: ref_db where
  "race_db = ref_empty\<lparr>ref_rows := [sample_fragment, other_fragment], ref_changes := 1\<rparr>"

lemma race_inserts:
  "ref_effect (Insert_or_ignore clash_fragment) sample_db = sample_db"
  "ref_effect (Insert_or_ignore other_fragment) sample_db = race_db"
  by (simp_all add: ref_effect_def sample_db_def ref_empty_def race_db_def)
    (simp_all add: clash_fragment_def other_fragment_def sample_fragment_def)

abbreviation race_server :: "string \<Rightarrow> ref_db http_server \<Rightarrow> ref_db http_server" where
  "race_server ip srv \<equiv> srv\<lparr>srv_limiter := snd (allow 0 ip (srv_limiter srv))\<rparr>"

lemma race_allows: "fst (allow 0 ''b'' (srv_limiter (race_server ''a'' sample_server)))"
  "fst (allow 0 ''a'' (srv_limiter sample_server))"
  by (simp_all add: sample_server_def register_routes_def add_route_def http_server_new_def allow_def rl_new_def
    rl_entry_of_def rl_put_def Let_def)

text \<open>Thread 0 makes its step, then thread 1 makes its own, then thread 0 counts.\<close>

definition race_run :: "ref_db threads" where
  "race_run = threads_run ref_engine sample_ctx sample_jobs (replicate 4 0 @ replicate 4 1 @ [0]) sample_start"

lemma race_run_eq:
  "race_run = threads_next ref_engine sample_ctx sample_jobs 0
     \<lparr>th_pcs = (\<lambda>_. Begun)(0 := In_call (Op_insert clash_fragment) At_changes, 1 := In_call (Op_insert other_fragment) At_changes),
      th_state = (race_server ''b'' (race_server ''a'' sample_server), race_db)\<rparr>"
proof -
  have "threads_run ref_engine sample_ctx sample_jobs (replicate 4 0) sample_start
      = \<lparr>th_pcs = (\<lambda>_. Begun)(0 := In_call (Op_insert clash_fragment) At_changes), th_state = (race_server ''a'' sample_server, sample_db)\<rparr>"
    using post_to_changes[OF race_allows(2) clash_arrives(1) sample_token clash_postable(1) race_data(5,6), of 1700000000]
    by (simp add: threads_repeat race_data race_inserts sample_start_def threads_start_def)
  moreover have "threads_run ref_engine sample_ctx sample_jobs (replicate 4 1) \<dots>
      = \<lparr>th_pcs = (\<lambda>_. Begun)(0 := In_call (Op_insert clash_fragment) At_changes, 1 := In_call (Op_insert other_fragment) At_changes),
         th_state = (race_server ''b'' (race_server ''a'' sample_server), race_db)\<rparr>"
    using post_to_changes[OF race_allows(1) clash_arrives(2) sample_token clash_postable(2) race_data(5,6), of 1700000000]
    by (simp add: threads_repeat race_data race_inserts del: One_nat_def)
  ultimately show ?thesis
    by (simp add: race_run_def threads_run_append) (simp add: threads_run_def)
qed

text \<open>
  C15. What a client is told need not be true: \<open>sqlite3_changes\<close> may count the statement of another
  thread.  Here a client posts a fragment under an id that is taken; another client's new fragment is
  stored between the step and the count, and the first client is told 201, that its fragment was
  created, while the table keeps the old one.
\<close>

theorem told_created:
  "\<exists>th. threads_reach ref_engine sample_ctx sample_jobs (sample_server, sample_db) th
    \<and> system_effect sample_ctx (sample_jobs 0) = Some (Op_insert clash_fragment)
    \<and> th_pcs th 0 = Sent (build_response (srv_cors_origin sample_server) (resp_created (created_body (frag_id clash_fragment))))
    \<and> ref_tbl (snd (th_state th)) (frag_id clash_fragment) = Some sample_fragment \<and> sample_fragment \<noteq> clash_fragment"
proof (intro exI conjI)
  show "threads_reach ref_engine sample_ctx sample_jobs (sample_server, sample_db) race_run"
    unfolding race_run_def by (rule sample_reach)
  show "th_pcs race_run 0
      = Sent (build_response (srv_cors_origin sample_server) (resp_created (created_body (frag_id clash_fragment))))"
    by (simp add: race_run_eq threads_next_def race_data ref_calls race_db_def del: dml_next.simps)
  show "ref_tbl (snd (th_state race_run)) (frag_id clash_fragment) = Some sample_fragment"
    by (simp add: race_run_eq threads_next_def race_data ref_calls del: dml_next.simps)
      (simp add: race_db_def ref_tbl_def clash_fragment_def other_fragment_def sample_fragment_def)
qed (simp_all only: sample_jobs_effects, simp add: clash_fragment_def sample_fragment_def)

end
