(* ===== verification/Startup.thy ===== *)
theory Startup
  imports Config Threads
begin

text \<open>
  What \<open>main\<close> sets up: the routes, limits and tokens of the server that it starts, the answer of a
  server without a configuration, numbers of the configuration that wrap, and the clean-up thread as a
  sequence of purges.
\<close>

lemma registered_routes:
  "srv_routes (register_routes eng ctx (http_server_new p cors rate)) = app_routes eng ctx"
  by (simp add: app_routes_def register_routes_def add_route_def http_server_new_def)

lemma registered_rest:
  "srv_cors_origin (register_routes eng ctx (http_server_new p cors rate)) = cors"
  "srv_limiter (register_routes eng ctx (http_server_new p cors rate)) = rl_new rate"
  by (simp_all add: register_routes_def add_route_def http_server_new_def)

lemma main_started:
  assumes "main_setup eng files now args = Started srv ctx db"
  obtains path where "parse_args ''config.json'' args = Some path"
    "ctx_tokens ctx = cfg_tokens (load_config (files path))" "srv_routes srv = app_routes eng ctx"
    "srv_cors_origin srv = cfg_cors_origin (load_config (files path))"
    "srv_limiter srv = rl_new (cfg_rate_limit (load_config (files path)))"
    "max_payload_bytes ctx = cfg_max_payload (load_config (files path))"
    "database_open eng (cfg_db_path (load_config (files path))) = Inr db"
proof -
  obtain path where p: "parse_args ''config.json'' args = Some path"
    using assms by (auto simp: main_setup_def split: option.splits)
  show ?thesis
    by (rule that[OF p]) (use assms p in \<open>auto simp: main_setup_def main_context_def main_server_def registered_routes
      registered_rest Let_def split: sum.splits\<close>)
qed

text \<open>A program with the sample token, whose first thread serves the post of the sample fragment.\<close>

definition sample_config :: config where
  "sample_config = \<lparr>cfg_port = 8080, cfg_tokens = [''t''], cfg_db_path = ''d'', cfg_cors_origin = ''*'',
     cfg_cleanup_interval = 3600, cfg_max_payload = 1000, cfg_rate_limit = 60\<rparr>"

lemma sample_config_ok: "config_ok sample_config"
  by (simp add: config_ok_def sample_config_def config_string_def config_keys_def INT_MIN_def INT_MAX_def ULLONG_MOD_def)

lemma sample_setup:
  "main_setup ref_engine (\<lambda>_. Some (config_text sample_config)) 0 [] = Started sample_server sample_ctx ref_empty"
  unfolding main_setup_def read_file_option load_written[OF sample_config_ok]
  by (simp add: database_open_def check_rc_def exec_script_def ref_engine_def sqlite_codes Let_def)
    (simp add: main_context_def main_server_def sample_config_def sample_ctx_def sample_server_def ref_engine_def
      sqlite_codes)

text \<open>
  C28. A server that was started without a configuration file has no token, and then it is closed,
  not open: every request to an endpoint under \<open>/api\<close> is answered 401.
\<close>

theorem default_server_closed:
  assumes "main_setup eng (\<lambda>_. None) now args = Started srv ctx db"
    and "endpoint_of (req_method req) (split (req_path req) (CHR ''/'')) \<notin> {Ep_health, Ep_none, Ep_wrong_method}"
  shows "respond (srv_routes srv) now' req db' = (resp_unauthorized, db')"
proof -
  obtain path where c: "ctx_tokens ctx = cfg_tokens (load_config None)" "srv_routes srv = app_routes eng ctx"
    using assms(1) by (rule main_started) simp
  have t: "ctx_tokens ctx = []" using c(1) by (simp add: load_config_def default_config_def)
  have "req_method req \<noteq> ''OPTIONS''"
    using assms(2) by (auto simp: endpoint_of_def split: list.splits if_splits)
  then show ?thesis
    using assms(2)
    by (simp add: c(2) respond_serve serve_def post_guard.rejects_all[OF t] list_guard.rejects_all[OF t]
      message_guard.rejects_all[OF t] delete_guard.rejects_all[OF t] split: endpoint.split)
qed

theorem default_server_closed_witness:
  "\<exists>srv ctx db. main_setup ref_engine (\<lambda>_. None) 0 [] = Started srv ctx db
    \<and> respond (srv_routes srv) 1 (sample_post) db = (resp_unauthorized, db)"
proof -
  obtain srv ctx db where m: "main_setup ref_engine (\<lambda>_. None) 0 [] = Started srv ctx db"
    by (simp add: main_setup_def database_open_def check_rc_def exec_script_def ref_engine_def sqlite_codes Let_def)
  have "endpoint_of (req_method sample_post) (split (req_path sample_post) (CHR ''/'')) \<notin> {Ep_health, Ep_none, Ep_wrong_method}"
    by (simp add: sample_post_def split_patterns endpoint_of_def)
  from default_server_closed[OF m this] m show ?thesis by blast
qed

text \<open>
  The clean-up thread is a sequence of purges that ends with the first round in which the stop
  flag is set, and what it logs are errors and positive counts.
\<close>

definition keeps_running :: "bool \<times> bool \<times> int \<Rightarrow> bool" where
  "keeps_running r \<longleftrightarrow> \<not> fst r \<and> \<not> fst (snd r)"

theorem cleanup_is_purges:
  "fst (cleanup_loop eng rounds db)
      = fold (\<lambda>now db. snd (purge_expired eng now db)) (map (snd \<circ> snd) (takeWhile keeps_running rounds)) db
    \<and> Inr 0 \<notin> set (snd (cleanup_loop eng rounds db))
    \<and> length (snd (cleanup_loop eng rounds db)) \<le> length (takeWhile keeps_running rounds)"
proof (induction eng rounds db rule: cleanup_loop.induct)
  case (2 eng stop1 stop2 now rounds db)
  obtain r db1 where p: "purge_expired eng now db = (r, db1)" by fastforce
  obtain db2 logs where q: "cleanup_loop eng rounds db1 = (db2, logs)" by fastforce
  show ?case
  proof (cases "stop1 \<or> stop2")
    case False
    then show ?thesis
      using "2.IH"[OF False p[symmetric] refl refl] by (simp add: p q keeps_running_def split: sum.split)
  qed (auto simp: keeps_running_def)
qed simp

text \<open>
  C39. The port of the configuration is not checked: for every configuration, the server that \<open>main\<close> starts
  keeps (and reports) the port as it was written, and listens on that port modulo 65536.
\<close>

theorem port_wraps:
  assumes "config_ok c" "parse_args ''config.json'' args = Some path" "files path = Some (config_text c)"
    and "main_setup eng files now args = Started srv ctx db"
  shows "srv_port srv = cfg_port c \<and> uint (listen_port srv) = cfg_port c mod 65536"
proof -
  have "srv = main_server eng c (main_context c now)"
    using assms(4) by (auto simp: main_setup_def assms(2,3) load_written[OF assms(1)] Let_def split: sum.splits)
  then have "srv_port srv = cfg_port c" by (simp add: main_server_def register_routes_def add_route_def http_server_new_def)
  then show ?thesis by (simp add: listen_port_def uint_word_of_int)
qed

theorem port_wraps_witness:
  "\<exists>srv ctx db. main_setup ref_engine (\<lambda>_. Some (config_text (sample_config\<lparr>cfg_port := 65616\<rparr>))) 0 [] = Started srv ctx db
    \<and> srv_port srv = 65616 \<and> uint (listen_port srv) = 80"
proof -
  let ?c = "sample_config\<lparr>cfg_port := 65616\<rparr>"
  have ok: "config_ok ?c"
    using sample_config_ok by (simp add: config_ok_def sample_config_def INT_MIN_def INT_MAX_def)
  obtain srv ctx db where m: "main_setup ref_engine (\<lambda>_. Some (config_text ?c)) 0 [] = Started srv ctx db"
    by (simp add: main_setup_def database_open_def check_rc_def exec_script_def ref_engine_def sqlite_codes Let_def)
  from port_wraps[OF ok _ _ m] m show ?thesis by simp
qed

text \<open>
  C40. A negative limit is not refused: \<open>stoull\<close> accepts a minus sign, and with the member
  \<open>max_payload_bytes\<close> written as \<open>-n\<close>, the largest payload is 2 to the 64 less \<open>n\<close>, whatever follows in the file.
\<close>

theorem negative_payload_wraps:
  assumes "0 < n" "n < 2 ^ 64" "rest = [] \<or> \<not> isdigit (hd rest)"
    and "parse_args ''config.json'' args = Some path"
    and "files path = Some (''{'' @ quoted ''max_payload_bytes'' @ '': -'' @ show_nat n @ rest)"
    and "main_setup eng files now args = Started srv ctx db"
  shows "max_payload_bytes ctx = 2 ^ 64 - n"
proof -
  let ?json = "''{'' @ quoted ''max_payload_bytes'' @ '': -'' @ show_nat n @ rest"
  have "number_text ?json ''max_payload_bytes'' = Some (SP # CHR ''-'' # show_nat n @ rest)"
    using number_text_at[of "''{''" "''max_payload_bytes''" "[]" "SP # CHR ''-'' # show_nat n @ rest"] by simp
  moreover have "stoull (SP # CHR ''-'' # show_nat n @ rest) = Inr (2 ^ 64 - n)"
    unfolding skip_space(3)[OF SP_space]
    using assms(1,2) by (simp add: stoull_def scan_number_show_nat(2)[OF assms(3)] ULLONG_MOD_def)
  ultimately have "cfg_max_payload (load_config (files path)) = 2 ^ 64 - n"
    unfolding assms(5) by (simp add: load_config_def size_member_def)
  then show ?thesis using main_started[OF assms(6)] assms(4) by (metis option.inject)
qed

theorem negative_payload_wraps_witness:
  "\<exists>srv ctx db. main_setup ref_engine (\<lambda>_. Some (''{'' @ quoted ''max_payload_bytes'' @ '': -'' @ show_nat 1 @ ''}'')) 0 []
      = Started srv ctx db \<and> max_payload_bytes ctx = 2 ^ 64 - 1"
proof -
  obtain srv ctx db where m: "main_setup ref_engine (\<lambda>_. Some (''{'' @ quoted ''max_payload_bytes'' @ '': -'' @ show_nat 1 @ ''}'')) 0 []
      = Started srv ctx db"
    by (simp add: main_setup_def database_open_def check_rc_def exec_script_def ref_engine_def sqlite_codes Let_def)
  have "max_payload_bytes ctx = 2 ^ 64 - 1"
    by (rule negative_payload_wraps[OF _ _ _ _ _ m]) (simp_all add: isdigit_def)
  with m show ?thesis by blast
qed

end
