(* ===== verification/Lifecycle.thy ===== *)
theory Lifecycle
  imports Prelude
begin

text \<open>
  The life cycle of the server: \<open>HttpServer::start\<close> in its thread, \<open>HttpServer::stop\<close> and the end
  of \<open>main\<close> in the main thread, and the signal that sets \<open>g_stop\<close>.  A step is one statement
  of one thread; system calls succeed or fail freely.  The accepted connections are counted, each is
  served by a detached thread; when that thread cannot be created, the exception of \<open>std::thread\<close>
  leaves \<open>start\<close>, and the accepted socket stays open.

  A call of \<open>accept\<close> on the open socket blocks.  Whether the \<open>n\<close>th such call ever returns, with a
  connection or with an error, is the environment's: the argument \<open>wakes\<close>.  Closing the socket from another
  thread need not wake a call in progress (on Linux it does not), and a client that connects still may.
\<close>

section \<open>State\<close>

text \<open>
  The server thread is about to call \<open>socket\<close>, \<open>bind\<close>, \<open>listen\<close>, to set
  \<open>running_\<close>, to test it, to call \<open>accept\<close>, waits in \<open>accept\<close>, its exception is about to be caught, or
  it has ended.
\<close>

datatype server_pc = Sv_socket | Sv_bind | Sv_listen | Sv_running | Sv_test | Sv_call | Sv_accept | Sv_caught | Sv_ended

text \<open>
  The main thread waits for \<open>g_stop\<close>, is about to clear \<open>running_\<close>, to close the socket, to join
  the server thread, or has returned a status.
\<close>

datatype main_pc = Mn_wait | Mn_clear | Mn_close | Mn_join | Mn_exited int

text \<open>Besides the connections, the calls of \<open>accept\<close> that have returned are counted.\<close>

record life =
  lf_fd :: "int option"
  lf_running :: bool
  lf_stop :: bool
  lf_conns :: nat
  lf_calls :: nat
  lf_leaked :: nat
  lf_server :: server_pc
  lf_main :: main_pc

definition life_start :: life where
  "life_start = \<lparr>lf_fd = None, lf_running = False, lf_stop = False, lf_conns = 0, lf_calls = 0, lf_leaked = 0,
     lf_server = Sv_socket, lf_main = Mn_wait\<rparr>"

section \<open>Steps\<close>

text \<open>
  When the server thread is joined, the destructor of the server calls \<open>stop\<close> once more, and then
  \<open>main\<close> returns.
\<close>

inductive life_step :: "(nat \<Rightarrow> bool) \<Rightarrow> life \<Rightarrow> life \<Rightarrow> bool" for wakes where
  socket_ok: "lf_server s = Sv_socket \<Longrightarrow> 0 \<le> fd \<Longrightarrow>
    life_step wakes s (s\<lparr>lf_fd := Some fd, lf_server := Sv_bind\<rparr>)"
| socket_failed: "lf_server s = Sv_socket \<Longrightarrow> life_step wakes s (s\<lparr>lf_fd := None, lf_server := Sv_caught\<rparr>)"
| bind_ok: "lf_server s = Sv_bind \<Longrightarrow> lf_fd s \<noteq> None \<Longrightarrow> life_step wakes s (s\<lparr>lf_server := Sv_listen\<rparr>)"
| bind_failed: "lf_server s = Sv_bind \<Longrightarrow> life_step wakes s (s\<lparr>lf_server := Sv_caught\<rparr>)"
| listen_ok: "lf_server s = Sv_listen \<Longrightarrow> lf_fd s \<noteq> None \<Longrightarrow> life_step wakes s (s\<lparr>lf_server := Sv_running\<rparr>)"
| listen_failed: "lf_server s = Sv_listen \<Longrightarrow> life_step wakes s (s\<lparr>lf_server := Sv_caught\<rparr>)"
| set_running: "lf_server s = Sv_running \<Longrightarrow> life_step wakes s (s\<lparr>lf_running := True, lf_server := Sv_test\<rparr>)"
| test_running: "lf_server s = Sv_test \<Longrightarrow>
    life_step wakes s (s\<lparr>lf_server := (if lf_running s then Sv_call else Sv_ended)\<rparr>)"
| accept_blocks: "lf_server s = Sv_call \<Longrightarrow> lf_fd s \<noteq> None \<Longrightarrow> life_step wakes s (s\<lparr>lf_server := Sv_accept\<rparr>)"
| accept_closed: "lf_server s = Sv_call \<Longrightarrow> lf_fd s = None \<Longrightarrow>
    life_step wakes s (s\<lparr>lf_server := (if lf_running s then Sv_test else Sv_ended)\<rparr>)"
| accept_ok: "lf_server s = Sv_accept \<Longrightarrow> wakes (lf_calls s) \<Longrightarrow>
    life_step wakes s (s\<lparr>lf_conns := lf_conns s + 1, lf_calls := lf_calls s + 1, lf_server := Sv_test\<rparr>)"
| spawn_failed: "lf_server s = Sv_accept \<Longrightarrow> wakes (lf_calls s) \<Longrightarrow>
    life_step wakes s (s\<lparr>lf_leaked := lf_leaked s + 1, lf_calls := lf_calls s + 1, lf_server := Sv_caught\<rparr>)"
| accept_failed: "lf_server s = Sv_accept \<Longrightarrow> wakes (lf_calls s) \<Longrightarrow>
    life_step wakes s (s\<lparr>lf_calls := lf_calls s + 1, lf_server := (if lf_running s then Sv_test else Sv_ended)\<rparr>)"
| caught: "lf_server s = Sv_caught \<Longrightarrow> life_step wakes s (s\<lparr>lf_stop := True, lf_server := Sv_ended\<rparr>)"
| signal: "\<not> lf_stop s \<Longrightarrow> life_step wakes s (s\<lparr>lf_stop := True\<rparr>)"
| see_stop: "lf_main s = Mn_wait \<Longrightarrow> lf_stop s \<Longrightarrow> life_step wakes s (s\<lparr>lf_main := Mn_clear\<rparr>)"
| clear_running: "lf_main s = Mn_clear \<Longrightarrow> life_step wakes s (s\<lparr>lf_running := False, lf_main := Mn_close\<rparr>)"
| close_socket: "lf_main s = Mn_close \<Longrightarrow> life_step wakes s (s\<lparr>lf_fd := None, lf_main := Mn_join\<rparr>)"
| join: "lf_main s = Mn_join \<Longrightarrow> lf_server s = Sv_ended \<Longrightarrow>
    life_step wakes s (s\<lparr>lf_fd := None, lf_running := False, lf_main := Mn_exited 0\<rparr>)"

inductive_cases life_stepE: "life_step wakes s s'"

abbreviation life_reach :: "(nat \<Rightarrow> bool) \<Rightarrow> life \<Rightarrow> bool" where
  "life_reach wakes s \<equiv> (life_step wakes)\<^sup>*\<^sup>* life_start s"

section \<open>Invariants\<close>

definition life_inv :: "life \<Rightarrow> bool" where
  "life_inv s \<longleftrightarrow> (lf_main s \<noteq> Mn_wait \<or> lf_server s = Sv_ended \<longrightarrow> lf_stop s)
     \<and> (lf_server s \<in> {Sv_test, Sv_call, Sv_accept} \<and> \<not> lf_running s \<longrightarrow> lf_stop s
          \<and> (lf_main s = Mn_join \<longrightarrow> lf_fd s = None) \<and> lf_main s \<notin> {Mn_wait, Mn_clear})
     \<and> (\<forall>c. lf_main s = Mn_exited c \<longrightarrow> c = 0 \<and> lf_server s = Sv_ended \<and> lf_fd s = None)"

lemma life_inv_step: "life_step wakes s s' \<Longrightarrow> life_inv s \<Longrightarrow> life_inv s'"
  by (induction rule: life_step.induct) (auto simp: life_inv_def)

lemma life_reach_inv: "life_reach wakes s \<Longrightarrow> life_inv s"
  by (induction rule: rtranclp_induct) (auto simp: life_inv_step, simp add: life_inv_def life_start_def)

text \<open>A server that was stopped before it set \<open>running_\<close>, and then set it.\<close>

definition life_stuck :: "life \<Rightarrow> bool" where
  "life_stuck s \<longleftrightarrow> lf_main s = Mn_join \<and> lf_running s \<and> lf_server s \<in> {Sv_test, Sv_call, Sv_accept}"

lemma life_leaked_mono: "life_step wakes s s' \<Longrightarrow> lf_leaked s \<le> lf_leaked s'"
  by (elim life_stepE) auto

lemma life_stuck_step: "life_step wakes s s' \<Longrightarrow> life_stuck s \<Longrightarrow> lf_leaked s' = lf_leaked s \<Longrightarrow> life_stuck s'"
  by (elim life_stepE) (auto simp: life_stuck_def)

lemma life_stuck_run:
  assumes "(life_step wakes)\<^sup>*\<^sup>* s s'" "life_stuck s"
  shows "lf_leaked s \<le> lf_leaked s' \<and> (lf_leaked s' = lf_leaked s \<longrightarrow> life_stuck s')"
  using assms(1)
proof (induction rule: rtranclp_induct)
  case (step t u)
  then show ?case using life_leaked_mono[of wakes t u] life_stuck_step[of wakes t u] by auto
qed (simp add: assms(2))

text \<open>A server that waits in an \<open>accept\<close> that no client answers.\<close>

lemma life_waits_step:
  "life_step wakes s s' \<Longrightarrow> lf_server s = Sv_accept \<Longrightarrow> \<not> wakes (lf_calls s) \<Longrightarrow>
    lf_server s' = Sv_accept \<and> lf_calls s' = lf_calls s"
  by (elim life_stepE) auto

text \<open>How far a stopped server is from its end.\<close>

definition life_left :: "life \<Rightarrow> nat" where
  "life_left s = (case lf_server s of Sv_accept \<Rightarrow> 2 | Sv_test \<Rightarrow> 1 | Sv_call \<Rightarrow> 1 | Sv_caught \<Rightarrow> 1 | _ \<Rightarrow> 0)
     + (case lf_main s of Mn_join \<Rightarrow> 1 | _ \<Rightarrow> 0)"

definition life_stopping :: "life \<Rightarrow> bool" where
  "life_stopping s \<longleftrightarrow> lf_stop s \<and> \<not> lf_running s \<and> lf_server s \<in> {Sv_test, Sv_call, Sv_accept, Sv_caught, Sv_ended}
     \<and> (lf_server s = Sv_call \<longrightarrow> lf_fd s = None)
     \<and> (lf_main s = Mn_join \<or> lf_main s = Mn_exited 0 \<and> lf_server s = Sv_ended)"

lemma life_stopping_cases:
  assumes "life_stopping s"
  obtains "lf_server s = Sv_test" "lf_main s = Mn_join" | "lf_server s = Sv_call" "lf_fd s = None" "lf_main s = Mn_join"
    | "lf_server s = Sv_accept" "lf_main s = Mn_join" | "lf_server s = Sv_caught" "lf_main s = Mn_join"
    | "lf_server s = Sv_ended" "lf_main s = Mn_join" | "lf_server s = Sv_ended" "lf_main s = Mn_exited 0"
  using assms by (auto simp: life_stopping_def)

lemma life_stopping_step:
  assumes "life_step wakes s s'" "life_stopping s"
  shows "life_stopping s' \<and> life_left s' < life_left s \<and> (lf_server s' = Sv_accept \<longrightarrow> lf_server s = Sv_accept)"
proof -
  have s: "lf_stop s" "\<not> lf_running s" using assms(2) by (simp_all add: life_stopping_def)
  show ?thesis
    using assms(2) by (cases rule: life_stopping_cases)
      (use assms(1) s in \<open>cases rule: life_step.cases; simp add: life_stopping_def life_left_def\<close>)+
qed

text \<open>Only a call of \<open>accept\<close> in progress, and no client, can keep a stopped server from its end.\<close>

lemma life_stopping_done:
  assumes "life_stopping s" "\<nexists>s'. life_step wakes s s'"
  shows "lf_main s = Mn_exited 0 \<or> lf_server s = Sv_accept \<and> \<not> wakes (lf_calls s)"
  using assms(1)
  by (cases rule: life_stopping_cases)
    (use assms(2) test_running[of s] accept_closed[of s] accept_ok[of s wakes] caught[of s] join[of s] in blast)+

text \<open>A server thread that has left \<open>start\<close> ends the program; how far it is from its end.\<close>

definition life_over :: "life \<Rightarrow> bool" where
  "life_over s \<longleftrightarrow> lf_server s = Sv_caught \<or> lf_server s = Sv_ended \<and> lf_stop s"

definition over_left :: "life \<Rightarrow> nat" where
  "over_left s = (if lf_stop s then 0 else 1) + (if lf_server s = Sv_caught then 1 else 0)
     + (case lf_main s of Mn_wait \<Rightarrow> 4 | Mn_clear \<Rightarrow> 3 | Mn_close \<Rightarrow> 2 | Mn_join \<Rightarrow> 1 | Mn_exited _ \<Rightarrow> 0)"

lemma life_over_step:
  "life_step wakes s s' \<Longrightarrow> life_over s \<Longrightarrow> life_over s' \<and> over_left s' < over_left s \<and> lf_conns s' = lf_conns s"
  by (elim life_stepE) (auto simp: life_over_def over_left_def)

lemma life_over_run:
  "(life_step wakes ^^ n) s s' \<Longrightarrow> life_over s \<Longrightarrow> life_over s' \<and> n + over_left s' \<le> over_left s \<and> lf_conns s' = lf_conns s"
proof (induction n arbitrary: s')
  case (Suc n)
  then obtain m where "(life_step wakes ^^ n) s m" "life_step wakes m s'" by auto
  with Suc.IH[of m] Suc.prems(2) life_over_step[of wakes m s'] show ?case by auto
qed simp

lemma life_over_done:
  assumes "life_over s" "\<nexists>s'. life_step wakes s s'" "life_inv s"
  shows "lf_main s = Mn_exited 0"
proof -
  have "lf_server s = Sv_ended" "lf_stop s" using assms(1,2) caught by (auto simp: life_over_def)
  then show ?thesis
    using assms(2,3) see_stop[of s] clear_running[of s] close_socket[of s] join[of s] by (cases "lf_main s") (auto simp: life_inv_def)
qed

section \<open>Sample runs\<close>

definition life_at :: "int option \<Rightarrow> bool \<Rightarrow> server_pc \<Rightarrow> main_pc \<Rightarrow> life" where
  "life_at fd run sv mn = \<lparr>lf_fd = fd, lf_running = run, lf_stop = True, lf_conns = 0, lf_calls = 0, lf_leaked = 0,
     lf_server = sv, lf_main = mn\<rparr>"

lemma reach_step: "life_reach wakes s \<Longrightarrow> life_step wakes s t \<Longrightarrow> t = u \<Longrightarrow> life_reach wakes u"
  by auto

text \<open>A signal before anything else; then the threads run in turn.\<close>

lemma reach_signal: "life_reach wakes (life_at None False Sv_socket Mn_wait)"
  using signal[of life_start] by (simp add: life_start_def life_at_def r_into_rtranclp)

lemma reach_failed: "life_reach wakes (life_at None False Sv_ended (Mn_exited 0))"
proof -
  have "life_reach wakes (life_at None False Sv_caught Mn_wait)"
    by (rule reach_step[OF reach_signal socket_failed]) (simp_all add: life_at_def)
  then have "life_reach wakes (life_at None False Sv_ended Mn_wait)"
    by (rule reach_step[OF _ caught]) (simp_all add: life_at_def)
  then have "life_reach wakes (life_at None False Sv_ended Mn_clear)"
    by (rule reach_step[OF _ see_stop]) (simp_all add: life_at_def)
  then have "life_reach wakes (life_at None False Sv_ended Mn_close)"
    by (rule reach_step[OF _ clear_running]) (simp_all add: life_at_def)
  then have "life_reach wakes (life_at None False Sv_ended Mn_join)"
    by (rule reach_step[OF _ close_socket]) (simp_all add: life_at_def)
  then show ?thesis by (rule reach_step[OF _ join]) (simp_all add: life_at_def)
qed

text \<open>The server thread from its first call to the accept loop, while the main thread stands still.\<close>

lemma reach_serving:
  assumes "life_reach wakes (life_at None False Sv_socket mn)"
  shows "life_reach wakes (life_at (Some 3) True Sv_call mn)" "life_reach wakes (life_at (Some 3) True Sv_accept mn)"
proof -
  have "life_reach wakes (life_at (Some 3) False Sv_bind mn)"
    by (rule reach_step[OF assms socket_ok[of _ 3]]) (simp_all add: life_at_def)
  then have "life_reach wakes (life_at (Some 3) False Sv_listen mn)"
    by (rule reach_step[OF _ bind_ok]) (simp_all add: life_at_def)
  then have "life_reach wakes (life_at (Some 3) False Sv_running mn)"
    by (rule reach_step[OF _ listen_ok]) (simp_all add: life_at_def)
  then have "life_reach wakes (life_at (Some 3) True Sv_test mn)"
    by (rule reach_step[OF _ set_running]) (simp_all add: life_at_def)
  then show call: "life_reach wakes (life_at (Some 3) True Sv_call mn)"
    by (rule reach_step[OF _ test_running]) (simp_all add: life_at_def)
  show "life_reach wakes (life_at (Some 3) True Sv_accept mn)"
    by (rule reach_step[OF call accept_blocks]) (simp_all add: life_at_def)
qed

text \<open>The main thread from the stop flag to the join, while the server thread stands still.\<close>

lemma run_stopped: "(life_step wakes)\<^sup>*\<^sup>* (life_at fd run sv Mn_wait) (life_at None False sv Mn_join)"
proof -
  have "life_step wakes (life_at fd run sv Mn_wait) (life_at fd run sv Mn_clear)"
    using see_stop[of "life_at fd run sv Mn_wait" wakes] by (simp add: life_at_def)
  moreover have "life_step wakes \<dots> (life_at fd False sv Mn_close)"
    using clear_running[of "life_at fd run sv Mn_clear" wakes] by (simp add: life_at_def)
  moreover have "life_step wakes \<dots> (life_at None False sv Mn_join)"
    using close_socket[of "life_at fd False sv Mn_close" wakes] by (simp add: life_at_def)
  ultimately show ?thesis by (meson converse_rtranclp_into_rtranclp rtranclp.rtrancl_refl)
qed

lemma reach_stopped:
  assumes "life_reach wakes (life_at fd run sv Mn_wait)"
  shows "life_reach wakes (life_at None False sv Mn_join)"
  using assms run_stopped by (rule rtranclp_trans)

lemma no_step_exited: "\<not> life_step wakes (life_at None False Sv_ended (Mn_exited 0)) t"
  by (auto simp: life_at_def elim: life_stepE)

section \<open>Properties\<close>

text \<open>
  \<open>main\<close> returns only after the server thread has ended, with the listening socket closed, and its
  status is then 0, also when the socket could not be created or bound.
\<close>

theorem exit_after_server:
  assumes "life_reach wakes s" "lf_main s = Mn_exited c"
  shows "lf_server s = Sv_ended \<and> lf_fd s = None \<and> c = 0"
  using life_reach_inv[OF assms(1)] assms(2) by (simp add: life_inv_def)

theorem exit_after_server_witness:
  "lf_server (life_at None False Sv_ended (Mn_exited 0)) = Sv_ended
    \<and> lf_fd (life_at None False Sv_ended (Mn_exited 0)) = None \<and> (0 :: int) = 0"
  by (rule exit_after_server[OF reach_failed]) (simp add: life_at_def)

text \<open>
  C12. When an exception leaves \<open>start\<close>, the service is over: be it that the socket could not be bound, or
  that the thread of a single connection could not be created.  No connection is accepted any more, no
  signal is needed for the stop, the program ends within six steps, and with status 0.
\<close>

theorem server_end_is_final:
  assumes "life_reach wakes s" "lf_server s \<in> {Sv_caught, Sv_ended}" "(life_step wakes ^^ n) s s'"
  shows "n \<le> 6 \<and> lf_conns s' = lf_conns s \<and> (lf_server s' = Sv_ended \<longrightarrow> lf_stop s')
    \<and> ((\<nexists>t. life_step wakes s' t) \<longrightarrow> lf_main s' = Mn_exited 0)"
proof -
  have over: "life_over s" using life_reach_inv[OF assms(1)] assms(2) by (auto simp: life_inv_def life_over_def)
  have "life_reach wakes s'" using assms(1) relpowp_imp_rtranclp[OF assms(3)] by (rule rtranclp_trans)
  moreover have "over_left s \<le> 6" by (simp add: over_left_def split: main_pc.split)
  ultimately show ?thesis
    using life_over_run[OF assms(3) over] life_over_done[of s' wakes] life_reach_inv[of wakes s'] by (auto simp: life_over_def)
qed

theorem server_end_is_final_witness:
  "(1 :: nat) \<le> 6 \<and> lf_conns (life_at (Some 3) True Sv_ended Mn_wait) = 0"
proof -
  let ?s = "(life_at (Some 3) True Sv_caught Mn_wait)\<lparr>lf_leaked := 1, lf_calls := 1\<rparr>"
  have "life_reach (\<lambda>_. True) ?s"
    by (rule reach_step[OF reach_serving(2)[OF reach_signal] spawn_failed]) (simp_all add: life_at_def)
  moreover have "(life_step (\<lambda>_. True) ^^ 1) ?s ((life_at (Some 3) True Sv_ended Mn_wait)\<lparr>lf_leaked := 1, lf_calls := 1\<rparr>)"
    using caught[of ?s "\<lambda>_. True"] by (simp add: life_at_def eq_OO)
  ultimately show ?thesis using server_end_is_final[of "\<lambda>_. True" ?s 1] by (fastforce simp: life_at_def)
qed

text \<open>
  C10. Closing the socket is not enough to stop an idle server: once the server waits in an \<open>accept\<close> that
  no client answers, the program never returns, whatever is signalled; when nothing is left to do, it has
  been stopped, and the main thread waits in \<open>join\<close>.
\<close>

theorem idle_server_never_stops:
  assumes "life_reach wakes s" "lf_server s = Sv_accept" "\<not> wakes (lf_calls s)" "(life_step wakes)\<^sup>*\<^sup>* s s'"
  shows "lf_server s' = Sv_accept \<and> (\<forall>c. lf_main s' \<noteq> Mn_exited c)
    \<and> ((\<nexists>t. life_step wakes s' t) \<longrightarrow> lf_main s' = Mn_join \<and> lf_stop s')"
proof -
  have waits: "lf_server s' = Sv_accept \<and> lf_calls s' = lf_calls s"
    using assms(4)
  proof (induction rule: rtranclp_induct)
    case (step t u)
    then show ?case using life_waits_step[of wakes t u] assms(3) by simp
  qed (simp add: assms(2))
  moreover have inv: "life_inv s'" by (rule life_reach_inv[OF rtranclp_trans[OF assms(1,4)]])
  moreover have "lf_main s' = Mn_join" if "\<nexists>t. life_step wakes s' t"
    using that waits inv signal[of s' wakes] see_stop[of s' wakes] clear_running[of s' wakes] close_socket[of s' wakes]
    by (cases "lf_main s'") (auto simp: life_inv_def)
  ultimately show ?thesis by (auto simp: life_inv_def)
qed

theorem idle_server_never_stops_witness:
  "lf_server (life_at None False Sv_accept Mn_join) = Sv_accept \<and> lf_main (life_at None False Sv_accept Mn_join) = Mn_join
    \<and> (\<nexists>t. life_step (\<lambda>_. False) (life_at None False Sv_accept Mn_join) t)"
proof -
  let ?s = "life_at (Some 3) True Sv_accept Mn_wait" and ?t = "life_at None False Sv_accept Mn_join"
  have "life_reach (\<lambda>_. False) ?s" by (rule reach_serving(2)[OF reach_signal])
  moreover have "(life_step (\<lambda>_. False))\<^sup>*\<^sup>* ?s ?t" by (rule run_stopped)
  moreover have "\<nexists>t. life_step (\<lambda>_. False) ?t t" by (auto simp: life_at_def elim: life_stepE)
  ultimately show ?thesis using idle_server_never_stops[of "\<lambda>_. False" ?s ?t] by (simp add: life_at_def)
qed

text \<open>
  C26. A stop that comes before the server has set \<open>running_\<close> is lost: there is a run after which the
  main thread waits in \<open>join\<close> while the server goes on accepting, and from there the program never
  returns, as long as every accepted connection gets its thread.
\<close>

theorem early_stop_hangs:
  "\<exists>s. life_reach wakes s \<and> lf_main s = Mn_join \<and> lf_server s = Sv_accept
    \<and> {s'. (life_step wakes)\<^sup>*\<^sup>* s s' \<and> lf_leaked s' = lf_leaked s} \<subseteq> {s'. lf_main s' = Mn_join \<and> lf_server s' \<in> {Sv_test, Sv_call, Sv_accept}}"
proof -
  let ?s = "life_at (Some 3) True Sv_accept Mn_join"
  have "life_reach wakes ?s" by (rule reach_serving(2)[OF reach_stopped[OF reach_signal]])
  moreover have "life_stuck ?s" by (simp add: life_stuck_def life_at_def)
  ultimately show ?thesis
    using life_stuck_run[of wakes ?s] by (intro exI[of _ ?s]) (auto simp: life_stuck_def life_at_def)
qed

end
