(* ===== verification/Program.thy ===== *)
theory Program
  imports Startup Lifecycle
begin

text \<open>
  The whole process, from the moment when \<open>main\<close> has made its objects: the main thread and the server
  thread (\<open>Lifecycle\<close>), one detached thread for every connection that the server has accepted, and the
  detached clean-up thread, over the same limiter, database and stop flag (\<open>Threads\<close>).
\<close>

section \<open>State\<close>

text \<open>
  The clean-up thread is about to test \<open>g_stop\<close> in the head of its loop, sleeps and then tests it
  again, is within \<open>purge_expired\<close>, or has left the loop.
\<close>

datatype cleanup_pc = Cl_test | Cl_sleep | Cl_purge | Cl_ended

record 'db program =
  pg_life :: life
  pg_threads :: "'db threads"
  pg_cleanup :: cleanup_pc
  pg_round :: nat
  pg_killed :: bool

text \<open>
  What the environment will do: the connections in the order in which they are accepted, which calls of
  \<open>accept\<close> return, for which connection the \<open>send\<close> of the answer fails with EPIPE, as it may when the client
  has closed or reset the connection, and the clock at the purges.  Connections have the even jobs of \<open>Threads\<close>, purges the odd ones.
\<close>

record environment =
  env_conns :: "nat \<Rightarrow> int \<times> string \<times> int \<times> string list"
  env_wakes :: "nat \<Rightarrow> bool"
  env_epipe :: "nat \<Rightarrow> bool"
  env_clocks :: "nat \<Rightarrow> int"

abbreviation conn_job :: "nat \<Rightarrow> nat" where "conn_job k \<equiv> 2 * k"
abbreviation purge_job :: "nat \<Rightarrow> nat" where "purge_job n \<equiv> 2 * n + 1"

definition program_jobs :: "environment \<Rightarrow> nat \<Rightarrow> system_event" where
  "program_jobs env t =
     (if even t then (case env_conns env (t div 2) of (ticks, ip, now, bufs) \<Rightarrow> Sys_connection ticks ip now bufs)
      else Sys_purge (env_clocks env (t div 2)))"

definition program_start :: "'db http_server \<Rightarrow> 'db \<Rightarrow> 'db program" where
  "program_start srv db =
     \<lparr>pg_life = life_start, pg_threads = threads_start (srv, db), pg_cleanup = Cl_test, pg_round = 0,
      pg_killed = False\<rparr>"

text \<open>
  \<open>main\<close> installs handlers for SIGINT and SIGTERM, and leaves the other signals at their default.  By POSIX a
  \<open>send\<close> that fails with EPIPE raises SIGPIPE unless its flags hold MSG_NOSIGNAL, and the default action of
  SIGPIPE ends the process.
\<close>

datatype posix_signal = SIGINT | SIGTERM | SIGPIPE
datatype send_flag = MSG_NOSIGNAL

definition handled :: "posix_signal set" where
  "handled = {SIGINT, SIGTERM}"

text \<open>Every way through \<open>handle_connection\<close> ends with one \<open>send\<close>, with the flags 0.\<close>

definition send_flags :: "send_flag set" where
  "send_flags = {}"

definition send_kills :: "environment \<Rightarrow> nat \<Rightarrow> bool \<Rightarrow> bool" where
  "send_kills env k sends \<longleftrightarrow> sends \<and> env_epipe env k \<and> MSG_NOSIGNAL \<notin> send_flags \<and> SIGPIPE \<notin> handled"

lemma send_kills_iff: "send_kills env k sends \<longleftrightarrow> sends \<and> env_epipe env k"
  by (simp add: send_kills_def send_flags_def handled_def)

text \<open>When \<open>main\<close> has returned, the server, the context and the database are destroyed.\<close>

definition objects_alive :: "'db program \<Rightarrow> bool" where
  "objects_alive p \<longleftrightarrow> \<not> pg_killed p \<and> (\<forall>c. lf_main (pg_life p) \<noteq> Mn_exited c)"

section \<open>Steps\<close>

text \<open>
  A step of the main or the server thread (an accepted connection has its thread from then on), of a
  connection thread, or of the clean-up thread.  What the detached threads do with destroyed objects
  is undefined in C++, so they have no steps then; a process that was killed has none at all.
\<close>

inductive program_step :: "'db sqlite \<Rightarrow> app_context \<Rightarrow> environment \<Rightarrow> 'db program \<Rightarrow> 'db program \<Rightarrow> bool"
  for eng ctx env where
  pg_process: "\<not> pg_killed p \<Longrightarrow> life_step (env_wakes env) (pg_life p) l \<Longrightarrow> program_step eng ctx env p (p\<lparr>pg_life := l\<rparr>)"
| pg_connection: "objects_alive p \<Longrightarrow> k < lf_conns (pg_life p) \<Longrightarrow>
    \<not> job_done (th_pcs (pg_threads p) (conn_job k)) \<Longrightarrow>
    th = threads_next eng ctx (program_jobs env) (conn_job k) (pg_threads p) \<Longrightarrow>
    program_step eng ctx env p (p\<lparr>pg_threads := th, pg_killed := send_kills env k (job_done (th_pcs th (conn_job k)))\<rparr>)"
| pg_cleanup_test: "objects_alive p \<Longrightarrow> pg_cleanup p = Cl_test \<Longrightarrow>
    program_step eng ctx env p (p\<lparr>pg_cleanup := (if lf_stop (pg_life p) then Cl_ended else Cl_sleep)\<rparr>)"
| pg_cleanup_wake: "objects_alive p \<Longrightarrow> pg_cleanup p = Cl_sleep \<Longrightarrow>
    program_step eng ctx env p (p\<lparr>pg_cleanup := (if lf_stop (pg_life p) then Cl_ended else Cl_purge)\<rparr>)"
| pg_purging: "objects_alive p \<Longrightarrow> pg_cleanup p = Cl_purge \<Longrightarrow>
    th = threads_next eng ctx (program_jobs env) (purge_job (pg_round p)) (pg_threads p) \<Longrightarrow>
    \<not> job_done (th_pcs th (purge_job (pg_round p))) \<Longrightarrow>
    program_step eng ctx env p (p\<lparr>pg_threads := th\<rparr>)"
| pg_purged: "objects_alive p \<Longrightarrow> pg_cleanup p = Cl_purge \<Longrightarrow>
    th = threads_next eng ctx (program_jobs env) (purge_job (pg_round p)) (pg_threads p) \<Longrightarrow>
    job_done (th_pcs th (purge_job (pg_round p))) \<Longrightarrow>
    program_step eng ctx env p (p\<lparr>pg_threads := th, pg_cleanup := Cl_test, pg_round := pg_round p + 1\<rparr>)"

inductive_cases program_stepE: "program_step eng ctx env p p'"

abbreviation program_reach :: "'db sqlite \<Rightarrow> app_context \<Rightarrow> environment \<Rightarrow> 'db http_server \<Rightarrow> 'db \<Rightarrow> 'db program \<Rightarrow> bool" where
  "program_reach eng ctx env srv db \<equiv> (program_step eng ctx env)\<^sup>*\<^sup>* (program_start srv db)"

section \<open>The program simulates its parts\<close>

interpretation as_threads: simulation "program_step eng ctx env" "threads_step_rel eng ctx (program_jobs env)" pg_threads
  for eng :: "'db sqlite" and ctx env
  by unfold_locales (auto elim!: program_stepE simp: threads_step_rel_def)

interpretation as_life: simulation "program_step eng ctx env" "life_step (env_wakes env)" pg_life
  for eng :: "'db sqlite" and ctx env
  by unfold_locales (auto elim!: program_stepE)

lemma program_threads:
  assumes "program_reach eng ctx env srv db p"
  shows "threads_reach eng ctx (program_jobs env) (srv, db) (pg_threads p)"
  using as_threads.run[OF assms] by (auto simp: program_start_def intro: threads_reach_run threads_init)

lemma program_life: "program_reach eng ctx env srv db p \<Longrightarrow> life_reach (env_wakes env) (pg_life p)"
  using as_life.run by (fastforce simp: program_start_def)

section \<open>Who is where\<close>

lemma threads_next_pcs:
  "th_pcs (threads_next eng ctx jobs t th) u =
    (if u = t then fst (job_next eng ctx (jobs t) (th_pcs th t) (th_state th)) else th_pcs th u)"
  by (simp add: threads_next_def split: prod.split)

lemma life_step_mono: "life_step wakes s s' \<Longrightarrow> lf_conns s \<le> lf_conns s' \<and> (lf_stop s \<longrightarrow> lf_stop s')"
  by (elim life_stepE) auto

lemma job_numbers [simp]: "2 * k \<noteq> Suc (2 * n)" "Suc (2 * n) \<noteq> 2 * k"
  by presburger+

text \<open>
  A connection that is not yet accepted has done nothing; the purges before the present round are
  over, those after it have not begun, and that of this round has begun only within \<open>purge_expired\<close>.
\<close>

definition program_inv :: "'db program \<Rightarrow> bool" where
  "program_inv p \<longleftrightarrow>
     (\<forall>k \<ge> lf_conns (pg_life p). th_pcs (pg_threads p) (conn_job k) = Begun)
     \<and> (\<forall>n < pg_round p. job_done (th_pcs (pg_threads p) (purge_job n)))
     \<and> (\<forall>n > pg_round p. th_pcs (pg_threads p) (purge_job n) = Begun)
     \<and> (if pg_cleanup p = Cl_purge then \<not> job_done (th_pcs (pg_threads p) (purge_job (pg_round p)))
        else th_pcs (pg_threads p) (purge_job (pg_round p)) = Begun)
     \<and> (pg_cleanup p = Cl_ended \<longrightarrow> lf_stop (pg_life p))"

lemma program_inv_step:
  assumes "program_step eng ctx env p p'" "program_inv p"
  shows "program_inv p'"
  using assms
proof (cases rule: program_step.cases)
  case (pg_process l)
  then show ?thesis using life_step_mono[of "env_wakes env" "pg_life p" l] assms(2) by (auto simp: program_inv_def)
next
  case (pg_connection k)
  let ?old = "th_pcs (pg_threads p)" and ?new = "th_pcs (pg_threads p')"
  have "?new (purge_job n) = ?old (purge_job n)" for n using pg_connection by (simp add: threads_next_pcs)
  moreover have "?new (conn_job j) = ?old (conn_job j)" if "lf_conns (pg_life p) \<le> j" for j
    using that pg_connection by (simp add: threads_next_pcs)
  moreover have "pg_life p' = pg_life p" "pg_round p' = pg_round p" "pg_cleanup p' = pg_cleanup p"
    using pg_connection by simp_all
  ultimately show ?thesis using assms(2) unfolding program_inv_def by presburger
next
  case pg_cleanup_test
  then show ?thesis using assms(2) by (simp add: program_inv_def)
next
  case pg_cleanup_wake
  then show ?thesis using assms(2) by (simp add: program_inv_def)
next
  case (pg_purging th)
  let ?old = "th_pcs (pg_threads p)" and ?new = "th_pcs (pg_threads p')"
  have "?new (conn_job k) = ?old (conn_job k)" for k using pg_purging by (simp add: threads_next_pcs)
  moreover have "?new (purge_job n) = ?old (purge_job n)" if "n \<noteq> pg_round p" for n
    using that pg_purging by (simp add: threads_next_pcs)
  ultimately show ?thesis using assms(2) pg_purging by (simp add: program_inv_def)
next
  case (pg_purged th)
  let ?old = "th_pcs (pg_threads p)" and ?new = "th_pcs (pg_threads p')"
  have "?new (conn_job k) = ?old (conn_job k)" for k using pg_purged by (simp add: threads_next_pcs)
  moreover have "?new (purge_job n) = ?old (purge_job n)" if "n \<noteq> pg_round p" for n
    using that pg_purged by (simp add: threads_next_pcs)
  moreover have "?old (purge_job (pg_round p + 1)) = Begun"
    using assms(2) unfolding program_inv_def by (metis less_add_one)
  then have "?new (purge_job (pg_round p + 1)) = Begun" using calculation(2)[of "pg_round p + 1"] by simp
  ultimately show ?thesis using assms(2) pg_purged by (simp add: program_inv_def less_Suc_eq)
qed

lemma program_reach_inv: "program_reach eng ctx env srv db p \<Longrightarrow> program_inv p"
proof (induction rule: rtranclp_induct)
  case base
  show ?case by (simp add: program_inv_def program_start_def threads_start_def)
qed (rule program_inv_step)

text \<open>Only a reset connection, when it is answered, kills the process.\<close>

lemma program_killed:
  "program_reach eng ctx env srv db p \<Longrightarrow> pg_killed p \<Longrightarrow> \<exists>k < lf_conns (pg_life p). env_epipe env k"
proof (induction rule: rtranclp_induct)
  case base
  then show ?case by (simp add: program_start_def)
next
  case (step p p')
  from step(2) show ?case
    by (cases rule: program_step.cases) (use step(3,4) in \<open>auto simp: send_kills_iff objects_alive_def\<close>)
qed

section \<open>Shutdown\<close>

definition purges_begun :: "'db program \<Rightarrow> nat" where
  "purges_begun p = pg_round p + (if pg_cleanup p = Cl_purge then 1 else 0)"

lemma not_begun:
  assumes "program_inv p" "purges_begun p \<le> n"
  shows "th_pcs (pg_threads p) (purge_job n) = Begun"
  using assms by (cases "n = pg_round p") (simp_all add: program_inv_def purges_begun_def split: if_splits)

lemma purges_begun_step:
  assumes "program_step eng ctx env p p'" "lf_stop (pg_life p)"
  shows "lf_stop (pg_life p') \<and> purges_begun p' \<le> purges_begun p"
  using assms by (cases rule: program_step.cases) (auto simp: purges_begun_def dest: life_step_mono)

definition clean_left :: "environment \<Rightarrow> 'db program \<Rightarrow> nat" where
  "clean_left env p = (case pg_cleanup p of
      Cl_ended \<Rightarrow> 0
    | Cl_purge \<Rightarrow> job_left (program_jobs env (purge_job (pg_round p))) (th_pcs (pg_threads p) (purge_job (pg_round p))) + 1
    | _ \<Rightarrow> 1)"

definition conns_left :: "environment \<Rightarrow> 'db program \<Rightarrow> nat" where
  "conns_left env p =
     (\<Sum>k < lf_conns (pg_life p). job_left (program_jobs env (conn_job k)) (th_pcs (pg_threads p) (conn_job k)))"

text \<open>An accepted connection adds at most five steps, and brings the server nearer to its end.\<close>

definition program_left :: "environment \<Rightarrow> 'db program \<Rightarrow> nat" where
  "program_left env p = 6 * life_left (pg_life p) + conns_left env p + clean_left env p"

definition jobs_ok :: "app_context \<Rightarrow> environment \<Rightarrow> 'db program \<Rightarrow> bool" where
  "jobs_ok ctx env p \<longleftrightarrow> (\<forall>t. \<exists>cors e. job_inv ctx cors (program_jobs env t) e (th_pcs (pg_threads p) t))"

lemma job_less:
  assumes "jobs_ok ctx env p" "\<not> job_done (th_pcs (pg_threads p) t)"
  shows "job_left (program_jobs env t) (th_pcs (threads_next eng ctx (program_jobs env) t (pg_threads p)) t)
    < job_left (program_jobs env t) (th_pcs (pg_threads p) t)"
proof -
  obtain cors e where inv: "job_inv ctx cors (program_jobs env t) e (th_pcs (pg_threads p) t)"
    using assms(1) unfolding jobs_ok_def by blast
  obtain srv db where st: "th_state (pg_threads p) = (srv, db)" by fastforce
  from job_left_0[OF inv] assms(2) job_left_next[OF inv, of eng srv db] show ?thesis
    by (cases "job_left (program_jobs env t) (th_pcs (pg_threads p) t)") (auto simp: threads_next_pcs st)
qed

lemma life_conns_step: "life_step wakes s s' \<Longrightarrow> lf_conns s' \<le> lf_conns s + 1"
  by (elim life_stepE) auto

lemma conns_left_process:
  assumes "lf_conns (pg_life p) \<le> lf_conns l" "lf_conns l \<le> lf_conns (pg_life p) + 1"
  shows "conns_left env (p\<lparr>pg_life := l\<rparr>) \<le> conns_left env p + 5"
proof (cases "lf_conns l = lf_conns (pg_life p)")
  case False
  then have "lf_conns l = Suc (lf_conns (pg_life p))" using assms by simp
  then show ?thesis by (simp add: conns_left_def job_left_5)
qed (simp add: conns_left_def)

lemma conns_left_connection:
  assumes "jobs_ok ctx env p" "k < lf_conns (pg_life p)" "\<not> job_done (th_pcs (pg_threads p) (conn_job k))"
  shows "conns_left env (p\<lparr>pg_threads := threads_next eng ctx (program_jobs env) (conn_job k) (pg_threads p), pg_killed := b\<rparr>)
    < conns_left env p"
proof -
  let ?th = "threads_next eng ctx (program_jobs env) (conn_job k) (pg_threads p)"
  have "(\<Sum>j < lf_conns (pg_life p). job_left (program_jobs env (conn_job j)) (th_pcs ?th (conn_job j)))
      < (\<Sum>j < lf_conns (pg_life p). job_left (program_jobs env (conn_job j)) (th_pcs (pg_threads p) (conn_job j)))"
  proof (rule sum_strict_mono_ex1)
    show "\<exists>j \<in> {..<lf_conns (pg_life p)}. job_left (program_jobs env (conn_job j)) (th_pcs ?th (conn_job j))
        < job_left (program_jobs env (conn_job j)) (th_pcs (pg_threads p) (conn_job j))"
      using assms(2) job_less[OF assms(1,3)] by blast
    show "\<forall>j \<in> {..<lf_conns (pg_life p)}. job_left (program_jobs env (conn_job j)) (th_pcs ?th (conn_job j))
        \<le> job_left (program_jobs env (conn_job j)) (th_pcs (pg_threads p) (conn_job j))"
    proof
      fix j
      show "job_left (program_jobs env (conn_job j)) (th_pcs ?th (conn_job j))
          \<le> job_left (program_jobs env (conn_job j)) (th_pcs (pg_threads p) (conn_job j))"
        using job_less[OF assms(1,3), of eng] by (cases "j = k") (simp_all add: threads_next_pcs)
    qed
  qed simp
  then show ?thesis by (simp add: conns_left_def)
qed

lemma program_left_step:
  assumes "program_step eng ctx env p p'" "jobs_ok ctx env p" "program_inv p" "life_stopping (pg_life p)"
  shows "program_left env p' < program_left env p"
  using assms(1)
proof (cases rule: program_step.cases)
  case (pg_process l)
  have "life_left l < life_left (pg_life p)" using life_stopping_step[OF pg_process(3) assms(4)] by simp
  moreover have "conns_left env (p\<lparr>pg_life := l\<rparr>) \<le> conns_left env p + 5"
    using life_step_mono[OF pg_process(3)] life_conns_step[OF pg_process(3)] by (simp add: conns_left_process)
  moreover have "clean_left env p' = clean_left env p"
    using pg_process(1) by (cases "pg_cleanup p") (simp_all add: clean_left_def)
  ultimately show ?thesis using pg_process(1) by (simp add: program_left_def)
next
  case (pg_connection k)
  then have "conns_left env p' < conns_left env p" using conns_left_connection[OF assms(2)] by simp
  moreover have "clean_left env p' = clean_left env p"
    unfolding pg_connection(1,5) by (cases "pg_cleanup p") (simp_all add: clean_left_def threads_next_pcs)
  ultimately show ?thesis using pg_connection(1) by (simp add: program_left_def)
next
  case pg_cleanup_test
  then show ?thesis using assms(4) by (simp add: program_left_def conns_left_def clean_left_def life_stopping_def)
next
  case pg_cleanup_wake
  then show ?thesis using assms(4) by (simp add: program_left_def conns_left_def clean_left_def life_stopping_def)
next
  case (pg_purging th)
  have "\<not> job_done (th_pcs (pg_threads p) (purge_job (pg_round p)))"
    using pg_purging(4,5) by (auto simp: threads_next_pcs job_done_stays)
  from job_less[OF assms(2) this, of eng] show ?thesis
    using pg_purging by (simp add: program_left_def conns_left_def clean_left_def threads_next_pcs)
next
  case (pg_purged th)
  have "\<not> job_done (th_pcs (pg_threads p) (purge_job (pg_round p)))"
    using assms(3) pg_purged(3) by (simp add: program_inv_def)
  from job_less[OF assms(2) this, of eng] show ?thesis
    using pg_purged by (simp add: program_left_def conns_left_def clean_left_def threads_next_pcs)
qed

context sqlite_store begin

lemma program_jobs_ok:
  assumes "program_reach eng ctx env srv db p" "ok db" "srv_routes srv = app_routes eng ctx"
  shows "jobs_ok ctx env p"
proof -
  obtain eff where "\<forall>t. job_inv ctx (srv_cors_origin srv) (program_jobs env t) (t \<in> set eff) (th_pcs (pg_threads p) t)"
    by (rule threads_effects[OF program_threads[OF assms(1)] assms(2,3)])
  then show ?thesis unfolding jobs_ok_def by blast
qed

lemma program_stops:
  assumes "(program_step eng ctx env ^^ n) p p'" "program_reach eng ctx env srv db p" "ok db"
    and "srv_routes srv = app_routes eng ctx" "life_stopping (pg_life p)"
  shows "n + program_left env p' \<le> program_left env p \<and> life_stopping (pg_life p')
    \<and> (lf_server (pg_life p') = Sv_accept \<longrightarrow> lf_server (pg_life p) = Sv_accept) \<and> program_reach eng ctx env srv db p'"
  using assms(1)
proof (induction n arbitrary: p')
  case 0
  then show ?case using assms by simp
next
  case (Suc n)
  then obtain m where m: "(program_step eng ctx env ^^ n) p m" "program_step eng ctx env m p'" by auto
  from Suc.IH[OF m(1)] have IH: "n + program_left env m \<le> program_left env p" "life_stopping (pg_life m)"
    "lf_server (pg_life m) = Sv_accept \<longrightarrow> lf_server (pg_life p) = Sv_accept" "program_reach eng ctx env srv db m" by simp_all
  have "program_left env p' < program_left env m"
    by (rule program_left_step[OF m(2) program_jobs_ok[OF IH(4) assms(3,4)] program_reach_inv[OF IH(4)] IH(2)])
  moreover have "pg_life p' = pg_life m \<or> life_step (env_wakes env) (pg_life m) (pg_life p')"
    using m(2) by (cases rule: program_step.cases) simp_all
  then have "life_stopping (pg_life p') \<and> (lf_server (pg_life p') = Sv_accept \<longrightarrow> lf_server (pg_life m) = Sv_accept)"
    using IH(2) life_stopping_step by auto
  ultimately show ?case using IH m(2) by (auto intro: rtranclp.rtrancl_into_rtrancl)
qed

end

section \<open>Sample runs\<close>

lemma process_run:
  assumes "\<not> pg_killed p" "(life_step (env_wakes env))\<^sup>*\<^sup>* (pg_life p) l"
  shows "(program_step eng ctx env)\<^sup>*\<^sup>* p (p\<lparr>pg_life := l\<rparr>)"
  using assms(2)
proof (induction rule: rtranclp_induct)
  case (step l l')
  from pg_process[of "p\<lparr>pg_life := l\<rparr>" env l' eng ctx] step assms(1) show ?case by simp
qed simp

lemma threads_run_Suc:
  "threads_run eng ctx jobs (replicate (Suc n) t) th = threads_next eng ctx jobs t (threads_run eng ctx jobs (replicate n t) th)"
  unfolding threads_run_def by (simp del: replicate.simps add: replicate_append_same[symmetric] replicate_Suc)

lemma not_done_before:
  "\<not> job_done (th_pcs (threads_run eng ctx jobs (replicate (Suc n) t) th) t)
    \<Longrightarrow> \<not> job_done (th_pcs (threads_run eng ctx jobs (replicate n t) th) t)"
  unfolding threads_run_Suc by (auto simp: threads_next_pcs job_done_stays)

lemma connection_step:
  assumes "objects_alive p" "k < lf_conns (pg_life p)" "\<not> env_epipe env k"
    and "\<not> job_done (th_pcs (pg_threads p) (conn_job k))"
  shows "program_step eng ctx env p (p\<lparr>pg_threads := threads_next eng ctx (program_jobs env) (conn_job k) (pg_threads p)\<rparr>)"
proof -
  have "p\<lparr>pg_threads := th, pg_killed := send_kills env k b\<rparr> = p\<lparr>pg_threads := th\<rparr>" for th b
    using assms(1,3) by (simp add: send_kills_iff objects_alive_def)
  with pg_connection[OF assms(1,2,4) refl, of eng ctx env] show ?thesis by simp
qed

lemma connection_run:
  assumes "objects_alive p" "k < lf_conns (pg_life p)" "\<not> env_epipe env k"
    and "\<not> job_done (th_pcs (threads_run eng ctx (program_jobs env) (replicate n (conn_job k)) (pg_threads p)) (conn_job k))"
  shows "(program_step eng ctx env)\<^sup>*\<^sup>* p
    (p\<lparr>pg_threads := threads_run eng ctx (program_jobs env) (replicate (Suc n) (conn_job k)) (pg_threads p)\<rparr>)"
  using assms(4)
proof (induction n)
  case 0
  then show ?case using connection_step[OF assms(1-3)] by (auto simp: threads_run_def)
next
  case (Suc n)
  let ?run = "\<lambda>n. threads_run eng ctx (program_jobs env) (replicate n (conn_job k)) (pg_threads p)"
  from Suc.IH[OF not_done_before[OF Suc.prems]]
    connection_step[of "p\<lparr>pg_threads := ?run (Suc n)\<rparr>" k env eng ctx] Suc.prems assms(1-3)
  show ?case unfolding threads_run_Suc[of _ _ _ "Suc n"] by (simp add: objects_alive_def)
qed

text \<open>
  The first connection is accepted just when the program is stopped: its thread gets to different
  points before \<open>main\<close> returns.  Later ones would poll what it posts.
\<close>

definition sample_env :: environment where
  "sample_env = \<lparr>env_conns = (\<lambda>k. if k = 0 then (0, ''ip'', 1700000000, [post_bytes ''t'' sample_fragment])
       else (0, ''a'', 1700000020, [poll_bytes ''t'' ''c'' 5])),
     env_wakes = (\<lambda>_. True), env_epipe = (\<lambda>_. False), env_clocks = (\<lambda>_. 1700000030)\<rparr>"

definition life_accepted :: "int option \<Rightarrow> bool \<Rightarrow> server_pc \<Rightarrow> main_pc \<Rightarrow> life" where
  "life_accepted fd run sv mn = (life_at fd run sv mn)\<lparr>lf_conns := 1, lf_calls := 1\<rparr>"

lemma reach_accepted: "life_reach (\<lambda>_. True) (life_accepted (Some 3) True Sv_test Mn_wait)"
  by (rule reach_step[OF reach_serving(2)[OF reach_signal] accept_ok]) (simp_all add: life_at_def life_accepted_def)

lemma accepted_run:
  "(life_step wakes)\<^sup>*\<^sup>* (life_accepted (Some 3) True Sv_test Mn_wait) (life_accepted None False Sv_test Mn_join)"
  "(life_step wakes)\<^sup>*\<^sup>* (life_accepted None False Sv_test Mn_join) (life_accepted None False Sv_ended (Mn_exited 0))"
proof -
  have "life_step wakes (life_accepted (Some 3) True Sv_test Mn_wait) (life_accepted (Some 3) True Sv_test Mn_clear)"
    using see_stop[of "life_accepted (Some 3) True Sv_test Mn_wait"] by (simp add: life_accepted_def life_at_def)
  moreover have "life_step wakes \<dots> (life_accepted (Some 3) False Sv_test Mn_close)"
    using clear_running[of "life_accepted (Some 3) True Sv_test Mn_clear"] by (simp add: life_accepted_def life_at_def)
  moreover have "life_step wakes \<dots> (life_accepted None False Sv_test Mn_join)"
    using close_socket[of "life_accepted (Some 3) False Sv_test Mn_close"] by (simp add: life_accepted_def life_at_def)
  ultimately show "(life_step wakes)\<^sup>*\<^sup>* (life_accepted (Some 3) True Sv_test Mn_wait) (life_accepted None False Sv_test Mn_join)"
    by (meson converse_rtranclp_into_rtranclp rtranclp.rtrancl_refl)
  have "life_step wakes (life_accepted None False Sv_test Mn_join) (life_accepted None False Sv_ended Mn_join)"
    using test_running[of "life_accepted None False Sv_test Mn_join"] by (simp add: life_accepted_def life_at_def)
  moreover have "life_step wakes \<dots> (life_accepted None False Sv_ended (Mn_exited 0))"
    using join[of "life_accepted None False Sv_ended Mn_join"] by (simp add: life_accepted_def life_at_def)
  ultimately show "(life_step wakes)\<^sup>*\<^sup>* (life_accepted None False Sv_test Mn_join) (life_accepted None False Sv_ended (Mn_exited 0))"
    by (meson converse_rtranclp_into_rtranclp rtranclp.rtrancl_refl)
qed

lemma sample_wakes: "env_wakes sample_env = (\<lambda>_. True)"
  by (simp add: sample_env_def)

lemma sample_jobs_env: "program_jobs sample_env 0 = Sys_connection 0 ''ip'' 1700000000 [post_bytes ''t'' sample_fragment]"
  by (simp add: program_jobs_def sample_env_def)

definition sample_program :: "nat \<Rightarrow> life \<Rightarrow> ref_db program" where
  "sample_program n l =
     \<lparr>pg_life = l, pg_threads = threads_run ref_engine sample_ctx (program_jobs sample_env) (replicate n 0)
        (threads_start (sample_server, ref_empty)), pg_cleanup = Cl_test, pg_round = 0, pg_killed = False\<rparr>"

lemma sample_program_run:
  assumes "(life_step (\<lambda>_. True))\<^sup>*\<^sup>* (life_accepted (Some 3) True Sv_test Mn_wait) l"
    and "\<not> job_done (th_pcs (threads_run ref_engine sample_ctx (program_jobs sample_env) (replicate n 0)
      (threads_start (sample_server, ref_empty))) 0)"
  shows "program_reach ref_engine sample_ctx sample_env sample_server ref_empty (sample_program (Suc n) l)"
proof -
  let ?p = "(program_start sample_server ref_empty)\<lparr>pg_life := life_accepted (Some 3) True Sv_test Mn_wait\<rparr>"
  have "program_reach ref_engine sample_ctx sample_env sample_server ref_empty ?p"
    by (rule process_run) (simp_all add: program_start_def sample_wakes reach_accepted)
  moreover have "(program_step ref_engine sample_ctx sample_env)\<^sup>*\<^sup>* ?p
      (sample_program (Suc n) (life_accepted (Some 3) True Sv_test Mn_wait))"
    using connection_run[of ?p 0 sample_env ref_engine sample_ctx n] assms(2)
    by (simp add: objects_alive_def life_accepted_def life_at_def program_start_def sample_program_def sample_env_def)
  moreover have "(program_step ref_engine sample_ctx sample_env)\<^sup>*\<^sup>*
      (sample_program (Suc n) (life_accepted (Some 3) True Sv_test Mn_wait)) (sample_program (Suc n) l)"
    using process_run[of "sample_program (Suc n) (life_accepted (Some 3) True Sv_test Mn_wait)" sample_env l ref_engine
      sample_ctx] assms(1)
    by (simp add: sample_program_def program_start_def sample_wakes)
  ultimately show ?thesis by (meson rtranclp_trans)
qed

text \<open>After four steps the row is stored and the handler is about to ask for the count; after the fifth it has answered.\<close>

lemma sample_program_4:
  "threads_run ref_engine sample_ctx (program_jobs sample_env) (replicate 4 0) (threads_start (sample_server, ref_empty))
    = \<lparr>th_pcs = (\<lambda>_. Begun)(0 := In_call (Op_insert sample_fragment) At_changes), th_state = (sample_served, stored_db 1)\<rparr>"
proof -
  have "bind_fragment sample_fragment = sample_fragment"
    using sample_postable by (simp add: postable_def bind_nul_free)
  moreover have "ref_prep_rc ref_empty = SQLITE_OK" "ref_faults ref_empty = []"
    "ref_effect (Insert_or_ignore sample_fragment) ref_empty = stored_db 1"
    by (simp_all add: ref_empty_def ref_effect_def stored_db_def)
  ultimately show ?thesis
    using post_to_changes[OF sample_server_allows sample_post_arrives sample_token sample_postable, of ref_empty 1700000000]
    by (simp add: threads_repeat threads_start_def sample_jobs_env sample_stamped)
qed

lemma sample_program_5:
  "th_state (threads_run ref_engine sample_ctx (program_jobs sample_env) (replicate 5 0) (threads_start (sample_server, ref_empty)))
    = (sample_served, stored_db 1)"
  using alone_connection[OF sample_server_routes, of 0 "''ip''" 1700000000 "[post_bytes ''t'' sample_fragment]" ref_empty]
    sample_post_run
  by (simp add: threads_repeat threads_start_def sample_jobs_env case_prod_beta)

lemma sample_program_reach:
  assumes "(life_step (\<lambda>_. True))\<^sup>*\<^sup>* (life_accepted (Some 3) True Sv_test Mn_wait) l"
  shows "program_reach ref_engine sample_ctx sample_env sample_server ref_empty (sample_program 4 l)"
    and "program_reach ref_engine sample_ctx sample_env sample_server ref_empty (sample_program 5 l)"
proof -
  let ?run = "\<lambda>n. threads_run ref_engine sample_ctx (program_jobs sample_env) (replicate n 0) (threads_start (sample_server, ref_empty))"
  have four: "\<not> job_done (th_pcs (?run 4) 0)" unfolding sample_program_4 by simp
  then have three: "\<not> job_done (th_pcs (?run 3) 0)" using not_done_before[of _ _ _ 3] by (simp del: replicate.simps)
  then show "program_reach ref_engine sample_ctx sample_env sample_server ref_empty (sample_program 4 l)"
    using sample_program_run[OF assms three] by (simp del: replicate.simps)
  show "program_reach ref_engine sample_ctx sample_env sample_server ref_empty (sample_program 5 l)"
    using sample_program_run[OF assms four] by (simp del: replicate.simps)
qed

section \<open>Properties\<close>

text \<open>
  C9. A stop while the server is in its loop: once the main thread joins and \<open>running_\<close> is clear, the whole
  process makes at most five steps for each accepted connection and 24 more, whatever connections and purge
  are in progress (a step being a call of the limiter, a receive loop, a call of SQLite or a whole query).  When
  it cannot go on, it has returned 0, or was killed by the answer to a connection that the client had closed,
  or the server had already been waiting in \<open>accept\<close> at the stop, and no client woke it: an \<open>accept\<close> called
  after the stop fails, since the socket is closed, and never blocks.
\<close>

theorem shutdown_terminates:
  assumes "sqlite_store eng tbl ok" "ok db" "srv_routes srv = app_routes eng ctx" "program_reach eng ctx env srv db p"
    and "lf_main (pg_life p) = Mn_join" "\<not> lf_running (pg_life p)" "lf_server (pg_life p) \<in> {Sv_test, Sv_call, Sv_accept}"
    and "(program_step eng ctx env ^^ n) p p'"
  shows "n \<le> 5 * lf_conns (pg_life p) + 24
    \<and> ((\<nexists>q. program_step eng ctx env p' q) \<longrightarrow> lf_main (pg_life p') = Mn_exited 0
        \<or> pg_killed p' \<and> (\<exists>k < lf_conns (pg_life p'). env_epipe env k)
        \<or> lf_server (pg_life p) = Sv_accept \<and> lf_server (pg_life p') = Sv_accept
          \<and> \<not> env_wakes env (lf_calls (pg_life p')))"
proof -
  have stop: "life_stopping (pg_life p)"
    using life_reach_inv[OF program_life[OF assms(4)]] assms(5-7) by (auto simp: life_stopping_def life_inv_def)
  have "conns_left env p \<le> (\<Sum>k < lf_conns (pg_life p). 5)" unfolding conns_left_def by (rule sum_mono) (rule job_left_5)
  moreover have "clean_left env p \<le> 6" using job_left_5 by (simp add: clean_left_def split: cleanup_pc.split)
  moreover have "life_left (pg_life p) \<le> 3" using assms(5,7) by (auto simp: life_left_def)
  ultimately have "program_left env p \<le> 5 * lf_conns (pg_life p) + 24" by (simp add: program_left_def)
  moreover have p': "n + program_left env p' \<le> program_left env p" "life_stopping (pg_life p')"
    "lf_server (pg_life p') = Sv_accept \<longrightarrow> lf_server (pg_life p) = Sv_accept" "program_reach eng ctx env srv db p'"
    using sqlite_store.program_stops[OF assms(1,8,4,2,3) stop] by simp_all
  moreover have "lf_main (pg_life p') = Mn_exited 0
      \<or> lf_server (pg_life p') = Sv_accept \<and> \<not> env_wakes env (lf_calls (pg_life p'))"
    if "\<nexists>q. program_step eng ctx env p' q" "\<not> pg_killed p'"
    using life_stopping_done[OF p'(2), of "env_wakes env"] that pg_process[of p' env _ eng ctx] by blast
  ultimately show ?thesis using program_killed[OF p'(4)] by auto
qed

theorem shutdown_terminates_witness:
  "(2 :: nat) \<le> 5 * lf_conns (pg_life (sample_program 4 (life_accepted None False Sv_test Mn_join))) + 24
    \<and> lf_main (pg_life (sample_program 4 (life_accepted None False Sv_ended (Mn_exited 0)))) = Mn_exited 0"
proof -
  let ?l = "life_accepted None False Sv_test Mn_join" and ?m = "life_accepted None False Sv_ended Mn_join"
  let ?x = "life_accepted None False Sv_ended (Mn_exited 0)"
  have "program_step ref_engine sample_ctx sample_env (sample_program 4 ?l) (sample_program 4 ?m)"
    using pg_process[of "sample_program 4 ?l" sample_env ?m ref_engine sample_ctx] test_running[of ?l]
    by (simp add: sample_program_def life_accepted_def life_at_def)
  moreover have "program_step ref_engine sample_ctx sample_env (sample_program 4 ?m) (sample_program 4 ?x)"
    using pg_process[of "sample_program 4 ?m" sample_env ?x ref_engine sample_ctx] join[of ?m]
    by (simp add: sample_program_def life_accepted_def life_at_def)
  ultimately have run: "(program_step ref_engine sample_ctx sample_env ^^ 2) (sample_program 4 ?l) (sample_program 4 ?x)"
    by (auto simp: numeral_2_eq_2)
  have "\<nexists>q. program_step ref_engine sample_ctx sample_env (sample_program 4 ?x) q"
    by (auto simp: sample_program_def objects_alive_def life_accepted_def life_at_def elim!: program_stepE life_stepE)
  with shutdown_terminates[OF ref.sqlite_store_axioms sample_db_ok(2) sample_server_routes
    sample_program_reach(1)[OF accepted_run(1)] _ _ _ run]
  show ?thesis by (simp add: sample_program_4 sample_program_def life_accepted_def life_at_def)
qed

text \<open>
  C8. From the configuration file to the table: in every run of the process, whatever is in the table
  and was not there when the program started was posted over an accepted connection: the bytes of that
  connection parse to a POST to \<open>/api/fragments\<close> whose body, within the configured limit, reads as the fragment
  as it was bound, with the server's time, and whose Authorization field holds a token of the configuration.
\<close>

theorem program_origin:
  assumes "sqlite_store eng tbl ok" "main_setup eng files now0 args = Started srv ctx db" "ok db"
    and "program_reach eng ctx env srv db p" "tbl (snd (th_state (pg_threads p))) i = Some f" "tbl db i \<noteq> Some f"
  shows "\<exists>path k ticks ip now bufs req h. parse_args ''config.json'' args = Some path
    \<and> k < lf_conns (pg_life p) \<and> env_conns env k = (ticks, ip, now, bufs) \<and> req = read_and_parse bufs
    \<and> req_method req = ''POST'' \<and> split (req_path req) (CHR ''/'') = ['''', ''api'', ''fragments'']
    \<and> f = bind_fragment ((read_fragment (req_body req))\<lparr>timestamp := now\<rparr>) \<and> post_valid ctx req
    \<and> req_headers req ''authorization'' = Some h \<and> verify (cfg_tokens (load_config (files path))) h
    \<and> length (req_body req) \<le> cfg_max_payload (load_config (files path))"
proof -
  obtain path where path: "parse_args ''config.json'' args = Some path" "srv_routes srv = app_routes eng ctx"
    "ctx_tokens ctx = cfg_tokens (load_config (files path))" "max_payload_bytes ctx = cfg_max_payload (load_config (files path))"
    using assms(2) by (rule main_started)
  obtain t g where g: "system_effect ctx (program_jobs env t) = Some (Op_insert g)" "bind_fragment g = f"
    "th_pcs (pg_threads p) t \<noteq> Begun"
    using sqlite_store.threads_origin[OF assms(1) program_threads[OF assms(4)] assms(3) path(2) assms(5)] assms(6) by blast
  obtain ticks ip now bufs where j: "program_jobs env t = Sys_connection ticks ip now bufs"
    and v: "post_valid ctx (read_and_parse bufs)" "g = posted now (read_and_parse bufs)"
      "req_method (read_and_parse bufs) = ''POST''"
      "split (req_path (read_and_parse bufs)) (CHR ''/'') = ['''', ''api'', ''fragments'']"
    using insert_request[OF g(1)] by blast
  from j obtain k where k: "t = conn_job k" "env_conns env k = (ticks, ip, now, bufs)"
    by (auto simp: program_jobs_def elim!: evenE split: if_splits prod.splits)
  have "k < lf_conns (pg_life p)" using program_reach_inv[OF assms(4)] g(3) k(1) unfolding program_inv_def by (metis not_le)
  moreover from v(1) obtain h where "req_headers (read_and_parse bufs) ''authorization'' = Some h" "verify (ctx_tokens ctx) h"
    by (auto simp: post_valid_def is_authorized_def split: option.splits)
  moreover have "f = bind_fragment ((read_fragment (req_body (read_and_parse bufs)))\<lparr>timestamp := now\<rparr>)"
    using g(2) v(2) by (simp add: posted_def)
  moreover have "length (req_body (read_and_parse bufs)) \<le> max_payload_bytes ctx" using v(1) by (simp add: post_valid_def)
  ultimately show ?thesis using path k(2) v(1,3,4)
    by (intro exI[of _ path] exI[of _ k] exI[of _ ticks] exI[of _ ip] exI[of _ now] exI[of _ bufs]
      exI[of _ "read_and_parse bufs"] exI[of _ h]) simp
qed

theorem program_origin_witness:
  "\<exists>path k ticks ip now bufs req h. parse_args ''config.json'' [] = Some path
    \<and> k < lf_conns (pg_life (sample_program 5 (life_accepted (Some 3) True Sv_test Mn_wait)))
    \<and> env_conns sample_env k = (ticks, ip, now, bufs) \<and> req = read_and_parse bufs
    \<and> req_method req = ''POST'' \<and> split (req_path req) (CHR ''/'') = ['''', ''api'', ''fragments'']
    \<and> sample_fragment = bind_fragment ((read_fragment (req_body req))\<lparr>timestamp := now\<rparr>) \<and> post_valid sample_ctx req
    \<and> req_headers req ''authorization'' = Some h
    \<and> verify (cfg_tokens (load_config (Some (config_text sample_config)))) h
    \<and> length (req_body req) \<le> cfg_max_payload (load_config (Some (config_text sample_config)))"
  by (rule program_origin[OF ref.sqlite_store_axioms sample_setup sample_db_ok(2) sample_program_reach(2)[OF rtranclp.rtrancl_refl],
      where i = "''m-0''"])
    (simp_all add: sample_program_def sample_program_5 sample_stored sample_tbl)

text \<open>
  C11. Connection threads are detached, and \<open>main\<close> does not wait for them: it can return, and destroy
  the database and the server, while a connection's thread is within \<open>insert_fragment\<close>, about to
  use the database again.
\<close>

theorem thread_outlives_main:
  "\<exists>p. program_reach ref_engine sample_ctx sample_env sample_server ref_empty p
    \<and> lf_main (pg_life p) = Mn_exited 0
    \<and> th_pcs (pg_threads p) (conn_job 0) = In_call (Op_insert sample_fragment) At_changes"
proof (intro exI conjI)
  show "program_reach ref_engine sample_ctx sample_env sample_server ref_empty
      (sample_program 4 (life_accepted None False Sv_ended (Mn_exited 0)))"
    by (rule sample_program_reach(1)[OF rtranclp_trans[OF accepted_run]])
qed (simp_all add: sample_program_4 sample_program_def life_accepted_def life_at_def)

text \<open>
  C25. After \<open>g_stop\<close> is set no further purge begins: in every continuation only the purges that had
  begun before have done anything, and the clean-up thread is at most at the end of the one that was
  in progress.
\<close>

theorem cleanup_stops:
  assumes "program_reach eng ctx env srv db p" "lf_stop (pg_life p)" "(program_step eng ctx env)\<^sup>*\<^sup>* p p'"
  shows "pg_round p' \<le> purges_begun p \<and> (\<forall>n \<ge> purges_begun p. th_pcs (pg_threads p') (purge_job n) = Begun)"
proof -
  have "lf_stop (pg_life p') \<and> purges_begun p' \<le> purges_begun p"
    using assms(3)
  proof (induction rule: rtranclp_induct)
    case (step q r)
    then show ?case using purges_begun_step[of eng ctx env q r] by simp
  qed (simp add: assms(2))
  moreover have "program_inv p'" by (rule program_reach_inv[OF rtranclp_trans[OF assms(1,3)]])
  ultimately show ?thesis using not_begun[of p'] by (auto simp: purges_begun_def)
qed

theorem cleanup_stops_witness:
  "pg_round (sample_program 5 (life_accepted None False Sv_ended (Mn_exited 0))) \<le> 0"
proof -
  let ?l = "life_accepted (Some 3) True Sv_test Mn_wait" and ?x = "life_accepted None False Sv_ended (Mn_exited 0)"
  have run: "(life_step (env_wakes sample_env))\<^sup>*\<^sup>* ?l ?x" by (rule rtranclp_trans[OF accepted_run])
  have "(program_step ref_engine sample_ctx sample_env)\<^sup>*\<^sup>* (sample_program 5 ?l) (sample_program 5 ?x)"
    using process_run[of "sample_program 5 ?l" sample_env ?x ref_engine sample_ctx] run by (simp add: sample_program_def)
  from cleanup_stops[OF sample_program_reach(2)[OF rtranclp.rtrancl_refl] _ this] show ?thesis
    by (simp add: sample_program_def purges_begun_def life_accepted_def life_at_def)
qed

end
