(* ===== verification/Readers.thy ===== *)
theory Readers
  imports Program
begin

text \<open>
  A query is not one call: \<open>Database::get_fragments\<close> and \<open>get_message_fragments\<close> call \<open>sqlite3_step\<close>
  once for each row, and between two rows other threads may modify the table over the same connection.
  \<open>Threads\<close> answers such a request in one step; here its thread is taken apart into the calls, and runs
  among the others, and with them in the whole process of \<open>Program\<close>.
\<close>

section \<open>What SQLite promises of a query in progress\<close>

text \<open>
  The result of the next step of a query, from the states of the database since it began and the rows
  that it has delivered.  Whether the query sees a change that was made in the meantime is undefined;
  but each row was in the table at some time since, and a row that was in it all the time is delivered
  before \<open>SQLITE_DONE\<close>.  Nothing is said of the order.
\<close>

type_synonym 'db cursor = "sql_stmt \<Rightarrow> 'db list \<Rightarrow> sql_row list \<Rightarrow> step_result"

locale sqlite_cursor =
  fixes cur :: "'db cursor" and tbl :: "'db \<Rightarrow> store" and ok :: "'db \<Rightarrow> bool"
  assumes cursor_row: "\<forall>d \<in> set seen. ok d \<Longrightarrow> cur st seen rows = Row r \<Longrightarrow>
      \<exists>d \<in> set seen. \<exists>f \<in> ran (tbl d). selects st f \<and> r = sql_row_of f"
    and cursor_end: "\<forall>d \<in> set seen. ok d \<Longrightarrow> seen \<noteq> [] \<Longrightarrow> cur st seen rows = Stop SQLITE_DONE \<Longrightarrow>
      \<forall>d \<in> set seen. tbl d i = Some f \<Longrightarrow> selects st f \<Longrightarrow> sql_row_of f \<in> set rows"

text \<open>
  A query on a snapshot of the database from its beginning is one instance; it may break off, as the
  queries of the reference engine do.
\<close>

definition ref_cursor :: "ref_db cursor" where
  "ref_cursor st seen rows = (case seen of
      [] \<Rightarrow> Stop 21
    | d # _ \<Rightarrow>
        (case filter (\<lambda>f. sql_row_of f \<notin> set rows) (fetch_rows (ref_query st d)) of
           f # _ \<Rightarrow> Row (sql_row_of f)
         | [] \<Rightarrow> last (ref_query st d)))"

interpretation ref_cur: sqlite_cursor ref_cursor ref_tbl ref_ok
proof
  fix seen st rows r
  assume ok: "\<forall>d \<in> set seen. ref_ok d" and row: "ref_cursor st seen rows = Row r"
  obtain d ds where seen: "seen = d # ds" using row by (cases seen) (simp_all add: ref_cursor_def)
  then obtain rc where q: "last (ref_query st d) = Stop rc" "set (fetch_rows (ref_query st d)) \<subseteq> {f \<in> ran (ref_tbl d). selects st f}"
    using ref.query_fetch[of d st] ok by (auto simp: ref_engine_def)
  then have "filter (\<lambda>f. sql_row_of f \<notin> set rows) (fetch_rows (ref_query st d)) \<noteq> []" using row seen by (auto simp: ref_cursor_def)
  then obtain f gs where fs: "filter (\<lambda>f. sql_row_of f \<notin> set rows) (fetch_rows (ref_query st d)) = f # gs" by (auto simp: neq_Nil_conv)
  then have "f \<in> set (fetch_rows (ref_query st d))" using set_filter[of "\<lambda>f. sql_row_of f \<notin> set rows" "fetch_rows (ref_query st d)"] by auto
  moreover have "r = sql_row_of f" using fs row seen by (simp add: ref_cursor_def)
  moreover note q(2)
  ultimately show "\<exists>d \<in> set seen. \<exists>f \<in> ran (ref_tbl d). selects st f \<and> r = sql_row_of f" using seen by auto
next
  fix seen st rows i f
  assume ok: "\<forall>d \<in> set seen. ref_ok d" and ne: "seen \<noteq> []" and stop: "ref_cursor st seen rows = Stop SQLITE_DONE"
    and f: "\<forall>d \<in> set seen. ref_tbl d i = Some f" "selects st f"
  obtain d ds where seen: "seen = d # ds" using ne by (cases seen) simp_all
  have "last (ref_query st d) = Stop SQLITE_DONE" "filter (\<lambda>f. sql_row_of f \<notin> set rows) (fetch_rows (ref_query st d)) = []"
    using stop seen by (auto simp: ref_cursor_def split: list.splits)
  moreover obtain rc where "last (ref_query st d) = Stop rc"
    "rc = SQLITE_DONE \<longrightarrow> answers (ref_tbl d) (selects st) (fetch_rows (ref_query st d))"
    using ref.query_fetch[of d st] ok seen by (auto simp: ref_engine_def)
  moreover have "f \<in> ran (ref_tbl d)" using f(1) seen by (auto intro: ranI)
  ultimately show "sql_row_of f \<in> set rows" using f(2) by (auto simp: answers_def filter_empty_conv)
qed

section \<open>The reading thread\<close>

text \<open>The query that the handler of a request comes to, when its checks pass.\<close>

definition request_query :: "app_context \<Rightarrow> http_request \<Rightarrow> (string \<times> sql_stmt) option" where
  "request_query ctx req =
     (if req_method req = ''OPTIONS'' then None
      else (case endpoint_of (req_method req) (split (req_path req) (CHR ''/'')) of
          Ep_list \<Rightarrow> (case list_checks ctx req of
              Inl resp \<Rightarrow> None | Inr (c, since) \<Rightarrow> Some (''prepare get'', Select_chat (c_str c) since))
        | Ep_message m \<Rightarrow> (case message_checks ctx (req\<lparr>req_params := [''message_id'' \<mapsto> m]\<rparr>) of
              Inl resp \<Rightarrow> None | Inr m' \<Rightarrow> Some (''prepare get_msg'', Select_message (c_str m')))
        | _ \<Rightarrow> None))"

text \<open>
  The thread is about to prepare the statement, is in the loop with the fragments that it has read, or
  has sent its answer.
\<close>

datatype reader_pc = R_prepare | R_fetch "fragment list" | R_sent string

definition reader_prepare :: "'db sqlite \<Rightarrow> string \<Rightarrow> string \<times> sql_stmt \<Rightarrow> 'db \<Rightarrow> reader_pc" where
  "reader_prepare eng cors q db =
     (case check_rc (sq_prepare eng (snd q) db) (fst q) of
        Inl e \<Rightarrow> R_sent (build_response cors (query_answer (Inl e)))
      | Inr _ \<Rightarrow> R_fetch [])"

text \<open>Once round the loop, with the result of \<open>sqlite3_step\<close>.\<close>

fun reader_next :: "string \<Rightarrow> step_result \<Rightarrow> reader_pc \<Rightarrow> reader_pc" where
  "reader_next cors (Row r) (R_fetch fs) = R_fetch (fs @ [read_row r])"
| "reader_next cors (Stop rc) (R_fetch fs) = R_sent (build_response cors (query_answer (Inr fs)))"
| "reader_next cors res pc = pc"

section \<open>Undisturbed\<close>

lemma since_param_params [simp]: "since_param (req\<lparr>req_params := p\<rparr>) = since_param req"
  by (simp add: since_param_def)

lemma respond_query:
  assumes "request_query ctx req = Some (msg, st)"
  shows "respond (app_routes eng ctx) now req db
    = (query_answer (case check_rc (sq_prepare eng st db) msg of
        Inl e \<Rightarrow> Inl e | Inr _ \<Rightarrow> Inr (fetch_rows (sq_query eng st db))), db)"
  using assms
  by (auto simp: request_query_def respond_serve serve_def get_fragments_handler_def get_message_fragments_handler_def
    get_fragments_def get_message_fragments_def list_checks_def Let_def split: endpoint.splits sum.splits prod.splits if_splits
    option.splits)

lemma fetching:
  "fold (reader_next cors) (map Row rs @ [Stop rc]) (R_fetch fs)
    = R_sent (build_response cors (query_answer (Inr (fs @ fetch_rows (map Row rs @ [Stop rc])))))"
  by (induction rs arbitrary: fs) simp_all

lemma sent_stays: "fold (reader_next cors) results (R_sent b) = R_sent b"
  by (induction results) simp_all

section \<open>Among other threads\<close>

text \<open>
  The database at the time of the prepare and after every step of another thread until the loop ends,
  the rows that SQLite has delivered, and the result code that ended the loop, which the code does not
  look at.
\<close>

record 'db reading =
  rd_threads :: "'db threads"
  rd_pc :: reader_pc
  rd_seen :: "'db list"
  rd_rows :: "sql_row list"
  rd_end :: "int option"

definition reading_start :: "'db threads \<Rightarrow> 'db reading" where
  "reading_start th = \<lparr>rd_threads = th, rd_pc = R_prepare, rd_seen = [], rd_rows = [], rd_end = None\<rparr>"

definition reading_other :: "'db threads \<Rightarrow> 'db reading \<Rightarrow> 'db reading" where
  "reading_other th r = r\<lparr>rd_threads := th, rd_seen := (case rd_pc r of
     R_fetch fs \<Rightarrow> rd_seen r @ [snd (th_state th)] | _ \<Rightarrow> rd_seen r)\<rparr>"

definition reading_own :: "'db sqlite \<Rightarrow> 'db cursor \<Rightarrow> string \<times> sql_stmt \<Rightarrow> 'db reading \<Rightarrow> 'db reading" where
  "reading_own eng cur q r = (case th_state (rd_threads r) of (srv, db) \<Rightarrow>
     (case rd_pc r of
        R_prepare \<Rightarrow> r\<lparr>rd_pc := reader_prepare eng (srv_cors_origin srv) q db, rd_seen := [db]\<rparr>
      | R_fetch fs \<Rightarrow>
          (let res = cur (snd q) (rd_seen r) (rd_rows r)
           in r\<lparr>rd_pc := reader_next (srv_cors_origin srv) res (R_fetch fs),
                rd_rows := (case res of Row x \<Rightarrow> rd_rows r @ [x] | Stop _ \<Rightarrow> rd_rows r),
                rd_end := (case res of Stop rc \<Rightarrow> Some rc | Row _ \<Rightarrow> None)\<rparr>)
      | R_sent b \<Rightarrow> r))"

inductive reading_step :: "'db sqlite \<Rightarrow> 'db cursor \<Rightarrow> app_context \<Rightarrow> (nat \<Rightarrow> system_event)
    \<Rightarrow> nat \<Rightarrow> string \<times> sql_stmt \<Rightarrow> 'db reading \<Rightarrow> 'db reading \<Rightarrow> bool"
  for eng cur ctx jobs self q where
  others: "t \<noteq> self \<Longrightarrow> reading_step eng cur ctx jobs self q r
    (reading_other (threads_next eng ctx jobs t (rd_threads r)) r)"
| own: "reading_step eng cur ctx jobs self q r (reading_own eng cur q r)"

text \<open>The thread \<open>self\<close> has been permitted and its request comes to the query \<open>q\<close>.\<close>

definition reading_run :: "'db sqlite \<Rightarrow> 'db cursor \<Rightarrow> app_context \<Rightarrow> (nat \<Rightarrow> system_event) \<Rightarrow> nat \<Rightarrow> string \<times> sql_stmt
    \<Rightarrow> 'db threads \<Rightarrow> 'db reading \<Rightarrow> bool" where
  "reading_run eng cur ctx jobs self q th0 r \<longleftrightarrow> th_pcs th0 self = Admitted
     \<and> (\<exists>ticks ip now bufs. jobs self = Sys_connection ticks ip now bufs \<and> request_query ctx (read_and_parse bufs) = Some q)
     \<and> (reading_step eng cur ctx jobs self q)\<^sup>*\<^sup>* (reading_start th0) r"

section \<open>What a reading thread holds\<close>

text \<open>With regard to the states of the database that there were.\<close>

definition reads_ok :: "('db \<Rightarrow> store) \<Rightarrow> sql_stmt \<Rightarrow> 'db list \<Rightarrow> fragment list \<Rightarrow> bool" where
  "reads_ok tbl st seen fs \<longleftrightarrow> (\<forall>f \<in> set fs. selects st f \<and> (\<exists>d \<in> set seen. f \<in> ran (tbl d)))"

definition reads_all :: "('db \<Rightarrow> store) \<Rightarrow> sql_stmt \<Rightarrow> 'db list \<Rightarrow> fragment list \<Rightarrow> bool" where
  "reads_all tbl st seen fs \<longleftrightarrow> (\<forall>i f. (\<forall>d \<in> set seen. tbl d i = Some f) \<and> selects st f \<longrightarrow> f \<in> set fs)"

fun reading_inv :: "('db \<Rightarrow> store) \<Rightarrow> string \<Rightarrow> sql_stmt \<Rightarrow> 'db list \<Rightarrow> sql_row list \<Rightarrow> int option \<Rightarrow> reader_pc \<Rightarrow> bool" where
  "reading_inv tbl cors st seen rows e R_prepare = (seen = [] \<and> rows = [] \<and> e = None)"
| "reading_inv tbl cors st seen rows e (R_fetch fs) =
     (seen \<noteq> [] \<and> reads_ok tbl st seen fs \<and> fs = map read_row rows \<and> e = None)"
| "reading_inv tbl cors st seen rows e (R_sent b) =
     (b = build_response cors (resp_server_error ''db error'') \<and> e = None
      \<or> (\<exists>fs. b = build_response cors (resp_ok (fragments_array fs)) \<and> reads_ok tbl st seen fs
           \<and> (e = Some SQLITE_DONE \<longrightarrow> reads_all tbl st seen fs)))"

text \<open>A fragment that no job removes is in all of them if it was in the first.\<close>

definition reading_env :: "('db \<Rightarrow> store) \<Rightarrow> app_context \<Rightarrow> (nat \<Rightarrow> system_event) \<Rightarrow> 'db threads \<Rightarrow> 'db reading \<Rightarrow> bool" where
  "reading_env tbl ctx jobs th0 r \<longleftrightarrow> (\<forall>i f. tbl (snd (th_state th0)) i = Some f
     \<and> (\<forall>t e. system_effect ctx (jobs t) = Some e \<longrightarrow> spares i f e)
     \<longrightarrow> tbl (snd (th_state (rd_threads r))) i = Some f \<and> (\<forall>d \<in> set (rd_seen r). tbl d i = Some f))"

lemma reading_env_step:
  assumes "reading_env tbl ctx jobs th0 r"
    and "set (rd_seen r') \<subseteq> insert (snd (th_state (rd_threads r'))) (set (rd_seen r))"
    and "\<And>i f. tbl (snd (th_state (rd_threads r))) i = Some f \<Longrightarrow>
      \<forall>t e. system_effect ctx (jobs t) = Some e \<longrightarrow> spares i f e \<Longrightarrow> tbl (snd (th_state (rd_threads r'))) i = Some f"
  shows "reading_env tbl ctx jobs th0 r'"
  unfolding reading_env_def
proof (intro allI impI)
  fix i f
  assume f: "tbl (snd (th_state th0)) i = Some f \<and> (\<forall>t e. system_effect ctx (jobs t) = Some e \<longrightarrow> spares i f e)"
  note was = conjunct1[OF assms(1)[unfolded reading_env_def, THEN spec, THEN spec, THEN mp, OF f]]
    conjunct2[OF assms(1)[unfolded reading_env_def, THEN spec, THEN spec, THEN mp, OF f]]
  have "tbl (snd (th_state (rd_threads r'))) i = Some f" by (rule assms(3)[OF was(1) conjunct2[OF f]])
  moreover have "tbl d i = Some f" if "d \<in> set (rd_seen r')" for d
    using subsetD[OF assms(2) that] was(2) calculation by (elim insertE) simp_all
  ultimately show "tbl (snd (th_state (rd_threads r'))) i = Some f \<and> (\<forall>d \<in> set (rd_seen r'). tbl d i = Some f)" by simp
qed

locale query_store = sqlite_store eng tbl ok + sqlite_cursor cur tbl ok
  for eng :: "'db sqlite" and tbl ok cur +
  fixes ctx :: app_context and jobs :: "nat \<Rightarrow> system_event" and srv :: "'db http_server" and db :: 'db
  assumes start_ok: "ok db" and start_routes: "srv_routes srv = app_routes eng ctx"
begin

abbreviation reach :: "'db threads \<Rightarrow> bool" where
  "reach \<equiv> threads_reach eng ctx jobs (srv, db)"

definition passed :: "'db \<Rightarrow> bool" where
  "passed d \<longleftrightarrow> (\<exists>th. reach th \<and> d = snd (th_state th))"

definition reading_all :: "sql_stmt \<Rightarrow> 'db threads \<Rightarrow> 'db reading \<Rightarrow> bool" where
  "reading_all st th0 r \<longleftrightarrow> reach (rd_threads r) \<and> (\<forall>d \<in> set (rd_seen r). passed d)
     \<and> reading_env tbl ctx jobs th0 r
     \<and> reading_inv tbl (srv_cors_origin srv) st (rd_seen r) (rd_rows r) (rd_end r) (rd_pc r)"

lemma reach_ok: "reach th \<Longrightarrow> ok (snd (th_state th))"
  and reach_cors: "reach th \<Longrightarrow> srv_cors_origin (fst (th_state th)) = srv_cors_origin srv"
  using threads_reach_inv[OF _ start_ok start_routes, of jobs th] by (auto simp: threads_inv_def)

lemma passedI: "reach th \<Longrightarrow> passed (snd (th_state th))"
  by (auto simp: passed_def)

lemma passed_ok: "passed d \<Longrightarrow> ok d"
  by (auto simp: passed_def reach_ok)

lemma passed_id: "passed d \<Longrightarrow> f \<in> ran (tbl d) \<Longrightarrow> \<exists>th. reach th \<and> tbl (snd (th_state th)) (frag_id f) = Some f"
  using ok_wf[OF passed_ok[of d]] by (auto simp: passed_def store_wf_def ran_def)

lemma fetch_inv:
  assumes "reading_inv tbl cors st seen rows e (R_fetch fs)" "\<forall>d \<in> set seen. ok d"
  shows "cur st seen rows = Row x \<Longrightarrow> reading_inv tbl cors st seen (rows @ [x]) None (R_fetch (fs @ [read_row x]))"
    and "cur st seen rows = Stop rc \<Longrightarrow>
      reading_inv tbl cors st seen rows (Some rc) (R_sent (build_response cors (query_answer (Inr fs))))"
proof -
  have nul: "read_row (sql_row_of f) = f" if "d \<in> set seen" "f \<in> ran (tbl d)" for d f
    using ok_wf[of d] assms(2) that by (auto simp: store_wf_def ran_def read_row_of)
  show "reading_inv tbl cors st seen (rows @ [x]) None (R_fetch (fs @ [read_row x]))" if "cur st seen rows = Row x"
    using cursor_row[OF assms(2) that] assms(1) nul by (auto simp: reads_ok_def)
  show "reading_inv tbl cors st seen rows (Some rc) (R_sent (build_response cors (query_answer (Inr fs))))"
    if stop: "cur st seen rows = Stop rc"
  proof -
    have "reads_all tbl st seen fs" if "rc = SQLITE_DONE"
      unfolding reads_all_def
    proof (intro allI impI)
      fix i f assume f: "(\<forall>d \<in> set seen. tbl d i = Some f) \<and> selects st f"
      have ne: "seen \<noteq> []" and fs: "fs = map read_row rows" using assms(1) by simp_all
      have "sql_row_of f \<in> set rows" using cursor_end[OF assms(2) ne, of st rows i f] stop that f by simp
      moreover have "read_row (sql_row_of f) = f"
        using nul[of "hd seen" f] ranI[of "tbl (hd seen)" i f] ne f by simp
      ultimately show "f \<in> set fs" unfolding fs by force
    qed
    moreover have "reads_ok tbl st seen fs" using assms(1) by auto
    ultimately show ?thesis by auto
  qed
qed

lemma reading_all_own:
  assumes "reading_all st th0 r"
  shows "reading_all st th0 (reading_own eng cur (msg, st) r)"
proof -
  obtain srv1 db1 where st: "th_state (rd_threads r) = (srv1, db1)" by fastforce
  have old: "reach (rd_threads r)" "\<forall>d \<in> set (rd_seen r). passed d"
    "reading_env tbl ctx jobs th0 r" "reading_inv tbl (srv_cors_origin srv) st (rd_seen r) (rd_rows r) (rd_end r) (rd_pc r)"
    using assms by (simp_all add: reading_all_def)
  have cors: "srv_cors_origin srv1 = srv_cors_origin srv" using reach_cors[OF old(1)] by (simp add: st)
  have oks: "\<forall>d \<in> set (rd_seen r). ok d" using old(2) passed_ok by simp
  let ?r = "reading_own eng cur (msg, st) r"
  have th: "rd_threads ?r = rd_threads r" by (simp add: reading_own_def st Let_def split: reader_pc.split)
  have seen: "set (rd_seen ?r) \<subseteq> insert (snd (th_state (rd_threads r))) (set (rd_seen r))"
    by (auto simp: reading_own_def st Let_def split: reader_pc.split)
  have "reading_inv tbl (srv_cors_origin srv) st (rd_seen ?r) (rd_rows ?r) (rd_end ?r) (rd_pc ?r)"
  proof (cases "rd_pc r")
    case R_prepare
    then show ?thesis using old(4) by (auto simp: reading_own_def reader_prepare_def st cors reads_ok_def split: sum.split)
  next
    case (R_fetch fs)
    have "reading_inv tbl (srv_cors_origin srv) st (rd_seen r) (rd_rows r) (rd_end r) (R_fetch fs)" using old(4) unfolding R_fetch .
    note inv = fetch_inv[OF this oks]
    show ?thesis
    proof (cases "cur st (rd_seen r) (rd_rows r)")
      case (Row x)
      from inv(1)[OF this] show ?thesis using R_fetch Row by (auto simp: reading_own_def st cors)
    next
      case (Stop rc)
      from inv(2)[OF this] show ?thesis
        using R_fetch Stop by (simp add: reading_own_def st cors del: query_answer.simps)
    qed
  next
    case (R_sent b)
    then show ?thesis using old(4) by (simp add: reading_own_def st)
  qed
  moreover have "\<forall>d \<in> set (rd_seen ?r). passed d" using seen old(2) passedI[OF old(1)] by auto
  moreover have "reading_env tbl ctx jobs th0 ?r"
    by (rule reading_env_step[OF old(3)]) (use seen in \<open>simp_all add: th\<close>)
  ultimately show ?thesis using old(1) by (simp add: reading_all_def th)
qed

lemma reads_ok_more: "reads_ok tbl st seen fs \<Longrightarrow> reads_ok tbl st (seen @ [d]) fs"
  by (auto simp: reads_ok_def)

lemma reading_all_other:
  assumes "reading_all st th0 r"
  shows "reading_all st th0 (reading_other (threads_next eng ctx jobs t (rd_threads r)) r)"
proof -
  let ?th = "threads_next eng ctx jobs t (rd_threads r)" and ?r = "reading_other (threads_next eng ctx jobs t (rd_threads r)) r"
  have old: "reach (rd_threads r)" "\<forall>d \<in> set (rd_seen r). passed d"
    "reading_env tbl ctx jobs th0 r" "reading_inv tbl (srv_cors_origin srv) st (rd_seen r) (rd_rows r) (rd_end r) (rd_pc r)"
    using assms by (simp_all add: reading_all_def)
  have reach: "reach ?th" by (rule threads_step[OF old(1)])
  have seen: "set (rd_seen ?r) \<subseteq> insert (snd (th_state ?th)) (set (rd_seen r))"
    by (auto simp: reading_other_def split: reader_pc.splits)
  have "\<forall>d \<in> set (rd_seen ?r). passed d" using seen old(2) passedI[OF reach] by auto
  moreover have "reading_env tbl ctx jobs th0 ?r"
    by (rule reading_env_step[OF old(3)])
      (use seen threads_next_kept[OF old(1) start_ok start_routes] in \<open>simp_all add: reading_other_def\<close>)
  moreover have "reading_inv tbl (srv_cors_origin srv) st (rd_seen ?r) (rd_rows ?r) (rd_end ?r) (rd_pc ?r)"
    using old(4) by (cases "rd_pc r") (simp_all add: reading_other_def reads_ok_more)
  ultimately show ?thesis using reach by (simp add: reading_all_def reading_other_def)
qed

lemma reading_run_all:
  assumes "reach th0" "reading_run eng cur ctx jobs self (msg, st) th0 r"
  shows "reading_all st th0 r"
proof -
  have "(reading_step eng cur ctx jobs self (msg, st))\<^sup>*\<^sup>* (reading_start th0) r" using assms(2) by (simp add: reading_run_def)
  then show ?thesis
  proof (induction rule: rtranclp_induct)
    case base
    show ?case using assms(1) by (simp add: reading_all_def reading_start_def reading_env_def)
  next
    case (step q r)
    from step(2) show ?case
      by (cases rule: reading_step.cases) (use step(3) in \<open>simp_all add: reading_all_own reading_all_other\<close>)
  qed
qed

lemma reading_result:
  assumes "reach th0" "reading_run eng cur ctx jobs self (msg, st) th0 r" "rd_pc r = R_sent b"
  shows "b = build_response (srv_cors_origin srv) (resp_server_error ''db error'') \<and> rd_end r = None
    \<or> (\<exists>fs. b = build_response (srv_cors_origin srv) (resp_ok (fragments_array fs))
        \<and> (\<forall>f \<in> set fs. selects st f \<and> (\<exists>th. reach th \<and> tbl (snd (th_state th)) (frag_id f) = Some f))
        \<and> (rd_end r = Some SQLITE_DONE \<longrightarrow> (\<forall>i f. tbl (snd (th_state th0)) i = Some f \<and> selects st f
              \<and> (\<forall>t e. system_effect ctx (jobs t) = Some e \<longrightarrow> spares i f e) \<longrightarrow> f \<in> set fs)))"
proof -
  have all: "reading_all st th0 r" by (rule reading_run_all[OF assms(1,2)])
  consider "b = build_response (srv_cors_origin srv) (resp_server_error ''db error'')" "rd_end r = None"
    | fs where "b = build_response (srv_cors_origin srv) (resp_ok (fragments_array fs))" "reads_ok tbl st (rd_seen r) fs"
        "rd_end r = Some SQLITE_DONE \<longrightarrow> reads_all tbl st (rd_seen r) fs"
    using all assms(3) by (auto simp: reading_all_def)
  then show ?thesis
  proof cases
    case 2
    have "selects st f \<and> (\<exists>th. reach th \<and> tbl (snd (th_state th)) (frag_id f) = Some f)" if "f \<in> set fs" for f
    proof -
      have "selects st f \<and> (\<exists>d \<in> set (rd_seen r). f \<in> ran (tbl d))"
        using 2(2) that unfolding reads_ok_def by (rule bspec)
      then obtain d where d: "d \<in> set (rd_seen r)" "f \<in> ran (tbl d)" "selects st f" by auto
      moreover have "passed d" using d(1) all unfolding reading_all_def by simp
      ultimately show ?thesis using passed_id by simp
    qed
    moreover have "f \<in> set fs" if "rd_end r = Some SQLITE_DONE" "tbl (snd (th_state th0)) i = Some f" "selects st f"
      "\<forall>t e. system_effect ctx (jobs t) = Some e \<longrightarrow> spares i f e" for i f
    proof -
      have env: "reading_env tbl ctx jobs th0 r" using all by (simp add: reading_all_def)
      have "\<forall>d \<in> set (rd_seen r). tbl d i = Some f"
        using conjunct2[OF env[unfolded reading_env_def, THEN spec, THEN spec, THEN mp, OF conjI[OF that(2,4)]]] .
      with 2(3)[rule_format, OF that(1)] that(3) show ?thesis unfolding reads_all_def by blast
    qed
    ultimately show ?thesis using 2(1) by blast
  qed simp
qed

end

lemma poll_query:
  assumes "arrives bufs (poll_bytes h c s)" "valid_token ctx h" "pollable c s"
  shows "request_query ctx (read_and_parse bufs) = Some (''prepare get'', Select_chat c s)"
proof -
  let ?req = "parsed_request ''GET'' ''/api/fragments'' [(''chat_id'', c), (''since'', show_int s)]
    [(''Authorization'', h)] []"
  have "req_query ?req ''chat_id'' = Some c" "req_query ?req ''since'' = Some (show_int s)"
    by (simp_all add: parsed_request_def)
  moreover have "req_method ?req = ''GET''" "req_path ?req = ''/api/fragments''" by (simp_all add: parsed_request_def)
  ultimately show ?thesis
    using assms(3) token_authorized[OF assms(2)]
    by (simp add: poll_arrives[OF assms(1,2)] request_query_def endpoint_of_def split_patterns list_checks_def pollable_def
      c_str_id since_rendered)
qed

lemma poll_no_effect:
  "arrives bufs (poll_bytes h c s) \<Longrightarrow> valid_token ctx h \<Longrightarrow> request_effect ctx now (read_and_parse bufs) = None"
  by (simp add: poll_arrives request_effect_def parsed_request_def endpoint_of_def split_patterns)

section \<open>What is posted is delivered\<close>

text \<open>
  With any number of threads interleaved: a fragment whose client was told neither 429 nor 500 is in the
  answer to the polls that begin afterwards.
\<close>

lemma concurrent_delivery:
  assumes store: "sqlite_store eng tbl ok" "sqlite_cursor cur tbl ok" "ok db" "srv_routes srv = app_routes eng ctx"
    and run: "threads_reach eng ctx jobs (srv, db) th"
    and post: "jobs p = Sys_connection t1 ip1 now1 bufs1" "arrives bufs1 (post_bytes h1 f)" "valid_token ctx h1"
      "postable ctx f" "th_pcs th p = Sent b1"
      "b1 \<notin> {refusal srv, build_response (srv_cors_origin srv) (resp_server_error ''db error'')}"
    and fresh: "tbl db (frag_id f) = None"
      "\<forall>t g. t \<noteq> p \<and> system_effect ctx (jobs t) = Some (Op_insert g) \<longrightarrow> c_str (frag_id g) \<noteq> frag_id f"
    and spared: "\<forall>t e. system_effect ctx (jobs t) = Some e \<longrightarrow> spares (frag_id f) (f\<lparr>timestamp := now1\<rparr>) e"
    and poll: "jobs q = Sys_connection t2 ip2 now2 bufs2" "arrives bufs2 (poll_bytes h2 (chat_id f) s)"
      "valid_token ctx h2" "pollable (chat_id f) s" "th_pcs th q = Admitted"
      "(reading_step eng cur ctx jobs q (''prepare get'', Select_chat (chat_id f) s))\<^sup>*\<^sup>* (reading_start th) r"
      "rd_pc r = R_sent b2" "rd_end r = Some SQLITE_DONE"
    and since: "s < now1"
  shows "\<exists>fs. b2 = build_response (srv_cors_origin srv) (resp_ok (fragments_array fs)) \<and> f\<lparr>timestamp := now1\<rparr> \<in> set fs"
proof -
  let ?f = "f\<lparr>timestamp := now1\<rparr>"
  have nul: "nul_free f" "nul_free ?f" using post(4) by (simp_all add: postable_def nul_free_def)
  have f: "bind_fragment ?f = ?f" "c_str (frag_id ?f) = frag_id f"
    using nul by (simp_all add: bind_nul_free c_str_id nul_free_def)
  have effect: "system_effect ctx (jobs p) = Some (Op_insert ?f)" using post_effect[OF post(2-4)] by (simp add: post(1))
  have stored: "tbl (snd (th_state th)) (frag_id f) = Some ?f"
    using sqlite_store.threads_stored[OF store(1) run store(3,4) effect post(5,6) fresh(1) f(2)[symmetric]] fresh(2) spared f(1)
    by simp
  have "reading_run eng cur ctx jobs q (''prepare get'', Select_chat (chat_id f) s) th r"
    using poll_query[OF poll(2-4)] poll(1,5,6) by (simp add: reading_run_def)
  note reading = this
  have "query_store eng tbl ok cur ctx srv db" by (intro query_store.intro query_store_axioms.intro store)
  from query_store.reading_result[OF this run reading poll(7)] obtain fs where
    fs: "b2 = build_response (srv_cors_origin srv) (resp_ok (fragments_array fs))"
      "\<forall>i g. tbl (snd (th_state th)) i = Some g \<and> selects (Select_chat (chat_id f) s) g
        \<and> (\<forall>t e. system_effect ctx (jobs t) = Some e \<longrightarrow> spares i g e) \<longrightarrow> g \<in> set fs"
    using poll(8) by auto
  have "selects (Select_chat (chat_id f) s) ?f" using since by (simp add: in_chat_def)
  then have "?f \<in> set fs"
    by (intro fs(2)[THEN spec, THEN spec, THEN mp, of "frag_id f"]) (use stored spared in simp)
  then show ?thesis using fs(1) by blast
qed

section \<open>A reading thread in the whole process\<close>

text \<open>
  The thread of connection \<open>k\<close>, which for the program stays admitted while it reads row by row, together
  with all the other steps of the process: those of the main, the server and the clean-up thread, and those
  of the other connections.  Its answer, too, may be that of a closed connection.
\<close>

fun reader_done :: "reader_pc \<Rightarrow> bool" where
  "reader_done (R_sent b) = True"
| "reader_done pc = False"

inductive process_step :: "'db sqlite \<Rightarrow> 'db cursor \<Rightarrow> app_context \<Rightarrow> environment \<Rightarrow> nat \<Rightarrow> string \<times> sql_stmt
    \<Rightarrow> 'db program \<times> 'db reading \<Rightarrow> 'db program \<times> 'db reading \<Rightarrow> bool"
  for eng cur ctx env k q where
  quiet: "program_step eng ctx env p p' \<Longrightarrow> pg_threads p' = pg_threads p \<Longrightarrow>
    process_step eng cur ctx env k q (p, r) (p', r)"
| other_thread: "program_step eng ctx env p p' \<Longrightarrow> t \<noteq> conn_job k \<Longrightarrow>
    pg_threads p' = threads_next eng ctx (program_jobs env) t (pg_threads p) \<Longrightarrow>
    process_step eng cur ctx env k q (p, r) (p', reading_other (pg_threads p') r)"
| reader: "objects_alive p \<Longrightarrow> k < lf_conns (pg_life p) \<Longrightarrow> \<not> reader_done (rd_pc r) \<Longrightarrow>
    r' = reading_own eng cur q r \<Longrightarrow>
    process_step eng cur ctx env k q (p, r) (p\<lparr>pg_killed := send_kills env k (reader_done (rd_pc r'))\<rparr>, r')"

lemma reading_own_threads [simp]: "rd_threads (reading_own eng cur q r) = rd_threads r"
  by (simp add: reading_own_def Let_def split: prod.split reader_pc.split)

lemma process_reading:
  assumes "(process_step eng cur ctx env k q)\<^sup>*\<^sup>* (p, reading_start (pg_threads p)) s"
  shows "(reading_step eng cur ctx (program_jobs env) (conn_job k) q)\<^sup>*\<^sup>* (reading_start (pg_threads p)) (snd s)
    \<and> rd_threads (snd s) = pg_threads (fst s)"
  using assms
proof (induction rule: rtranclp_induct)
  case base
  show ?case by (simp add: reading_start_def)
next
  case (step s s')
  from step(2) have "(reading_step eng cur ctx (program_jobs env) (conn_job k) q)\<^sup>=\<^sup>= (snd s) (snd s')
      \<and> rd_threads (snd s') = pg_threads (fst s')"
  proof (cases rule: process_step.cases)
    case (quiet p p' r)
    then show ?thesis using step(3) by simp
  next
    case (other_thread p p' t r)
    then have "reading_step eng cur ctx (program_jobs env) (conn_job k) q r (reading_other (pg_threads p') r)"
      using step(3) others[of t "conn_job k" eng cur ctx "program_jobs env" q r] by simp
    then show ?thesis using other_thread by (simp add: reading_other_def)
  next
    case (reader p r r')
    then show ?thesis using step(3) own[of eng cur ctx "program_jobs env" "conn_job k" q r] by simp
  qed
  then show ?case using step(3) by auto
qed

section \<open>A sample run\<close>

text \<open>A client posts, is told so, and another one polls while the clean-up runs, before the fragment expires.\<close>

abbreviation sample_talk :: "nat \<Rightarrow> system_event" where
  "sample_talk \<equiv> program_jobs sample_env"

lemma sample_talk_jobs:
  "sample_talk 2 = Sys_connection 0 ''a'' 1700000020 [poll_bytes ''t'' ''c'' 5]"
  "sample_talk (Suc 0) = Sys_purge 1700000030"
  by (simp_all add: program_jobs_def sample_env_def)

lemma sample_talk_effects:
  "system_effect sample_ctx (sample_talk 0) = Some (Op_insert sample_fragment)"
  "t \<noteq> 0 \<Longrightarrow> system_effect sample_ctx (sample_talk t) \<in> {None, Some (Op_purge 1700000030)}"
proof -
  show "system_effect sample_ctx (sample_talk 0) = Some (Op_insert sample_fragment)"
    using post_effect[OF sample_post_arrives sample_token sample_postable, of 1700000000]
    by (simp add: sample_jobs_env sample_stamped)
  show "system_effect sample_ctx (sample_talk t) \<in> {None, Some (Op_purge 1700000030)}" if "t \<noteq> 0"
  proof (cases "even t")
    case True
    then have "t div 2 \<noteq> 0" using that by auto
    then show ?thesis
      using True by (simp add: program_jobs_def sample_env_def poll_no_effect[OF sample_poll_arrives sample_token])
  qed (simp add: program_jobs_def sample_env_def)
qed

lemma sample_talk_spares: "\<forall>t e. system_effect sample_ctx (sample_talk t) = Some e \<longrightarrow> spares ''m-0'' sample_fragment e"
proof (intro allI impI)
  fix t e assume "system_effect sample_ctx (sample_talk t) = Some e"
  then show "spares ''m-0'' sample_fragment e"
    using sample_talk_effects(1) sample_talk_effects(2)[of t] by (cases "t = 0") (auto simp: sample_expired)
qed

lemma sample_talk_alone:
  "\<forall>t g. t \<noteq> 0 \<and> system_effect sample_ctx (sample_talk t) = Some (Op_insert g) \<longrightarrow> c_str (frag_id g) \<noteq> ''m-0''"
proof (intro allI impI)
  fix t g assume "t \<noteq> 0 \<and> system_effect sample_ctx (sample_talk t) = Some (Op_insert g)"
  then show "c_str (frag_id g) \<noteq> ''m-0''" using sample_talk_effects(2)[of t] by auto
qed

definition sample_told :: string where
  "sample_told = build_response (srv_cors_origin sample_server) (resp_created (created_body ''m-0''))"

definition sample_admitted :: "ref_db threads" where
  "sample_admitted = threads_run ref_engine sample_ctx sample_talk (replicate 5 0 @ [2]) (threads_start (sample_server, ref_empty))"

lemma sample_admitted_reach: "threads_reach ref_engine sample_ctx sample_talk (sample_server, ref_empty) sample_admitted"
  unfolding sample_admitted_def by (rule threads_run_reach[OF threads_init])

lemma sample_sent_eq:
  "threads_run ref_engine sample_ctx sample_talk (replicate 5 0) (threads_start (sample_server, ref_empty))
    = \<lparr>th_pcs = (\<lambda>_. Begun)(0 := Sent sample_told), th_state = (sample_served, stored_db 1)\<rparr>"
  using sqlite_store.post_stores(1)[OF ref.sqlite_store_axioms sample_db_ok(2) sample_server_routes sample_server_allows
    sample_post_arrives sample_token sample_postable, of 1700000000]
    alone_connection[OF sample_server_routes, of 0 "''ip''" 1700000000 "[post_bytes ''t'' sample_fragment]" ref_empty]
  by (simp add: threads_repeat threads_start_def sample_jobs_env sample_tbl sample_stamped sample_inserted sample_told_def)
    (simp add: sample_fragment_def)

lemma sample_admitted_eq:
  "sample_admitted = \<lparr>th_pcs = (\<lambda>_. Begun)(0 := Sent sample_told, 2 := Admitted),
     th_state = (race_server ''a'' sample_served, stored_db 1)\<rparr>"
proof -
  have "fst (allow 0 ''a'' (srv_limiter sample_served))"
    by (simp add: sample_server_def register_routes_def add_route_def http_server_new_def allow_def rl_new_def
      rl_entry_of_def rl_put_def Let_def)
  then show ?thesis
    by (cases "allow 0 ''a'' (srv_limiter sample_served)")
      (simp add: sample_admitted_def threads_run_append sample_sent_eq del: replicate.simps,
        simp add: threads_run_def threads_next_def sample_talk_jobs)
qed

lemma sample_told_ok:
  "sample_told \<notin> {refusal sample_server, build_response (srv_cors_origin sample_server) (resp_server_error ''db error'')}"
proof -
  have "take 12 sample_told = ''HTTP/1.1 201''"
    "take 12 (refusal sample_server) = ''HTTP/1.1 429''"
    "take 12 (build_response (srv_cors_origin sample_server) (resp_server_error ''db error'')) = ''HTTP/1.1 500''"
    by (simp_all add: sample_told_def refusal_def build_response_def response_head_def response_defs show_int_def show_nat.simps
      digit_char_def chr_eq_iff)
  then show ?thesis by auto
qed

abbreviation sample_query :: "string \<times> sql_stmt" where
  "sample_query \<equiv> (''prepare get'', Select_chat ''c'' 5)"

abbreviation sample_own :: "ref_db reading \<Rightarrow> ref_db reading" where
  "sample_own \<equiv> reading_own ref_engine ref_cursor sample_query"

abbreviation sample_purging :: "ref_db threads" where
  "sample_purging \<equiv> threads_next ref_engine sample_ctx sample_talk 1 sample_admitted"

definition sample_begun :: "ref_db reading" where
  "sample_begun = sample_own (reading_start sample_admitted)"

definition sample_met :: "ref_db reading" where
  "sample_met = reading_other sample_purging sample_begun"

definition sample_fetched :: "ref_db reading" where
  "sample_fetched = sample_own sample_met"

definition sample_reading :: "ref_db reading" where
  "sample_reading = sample_own sample_fetched"

lemma sample_rows:
  "ref_cursor (Select_chat ''c'' 5) [stored_db n, d] [] = Row (sql_row_of sample_fragment)"
  "ref_cursor (Select_chat ''c'' 5) [stored_db n, d] [sql_row_of sample_fragment] = Stop SQLITE_DONE"
  by (simp_all add: ref_cursor_def ref_query_def stored_db_def ref_empty_def sample_fragment_def in_chat_def sql_row_of_def
    col_text_def c_str_id)

lemma sample_begun [simp]:
  "rd_pc sample_begun = R_fetch []" "rd_seen sample_begun = [stored_db 1]" "rd_rows sample_begun = []"
  "rd_threads sample_begun = sample_admitted"
proof -
  have "check_rc (sq_prepare ref_engine (Select_chat ''c'' 5) (stored_db 1)) m = Inr ()" for m
    by (simp add: ref_engine_def stored_db_def ref_empty_def check_rc_def)
  then show "rd_pc sample_begun = R_fetch []" "rd_seen sample_begun = [stored_db 1]" "rd_rows sample_begun = []"
    "rd_threads sample_begun = sample_admitted"
    by (simp_all add: sample_begun_def reading_own_def reader_prepare_def reading_start_def sample_admitted_eq)
qed

lemma sample_met [simp]:
  "rd_pc sample_met = R_fetch []" "rd_seen sample_met = [stored_db 1, stored_db 1]" "rd_rows sample_met = []"
  "th_state (rd_threads sample_met) = (race_server ''a'' sample_served, stored_db 1)"
  by (simp_all add: sample_met_def reading_other_def sample_admitted_eq threads_next_def sample_talk_jobs)

lemma sample_fetched [simp]:
  "rd_pc sample_fetched = R_fetch [sample_fragment]" "rd_seen sample_fetched = [stored_db 1, stored_db 1]"
  "rd_rows sample_fetched = [sql_row_of sample_fragment]"
  "th_state (rd_threads sample_fetched) = (race_server ''a'' sample_served, stored_db 1)"
proof -
  have "read_row (sql_row_of sample_fragment) = sample_fragment"
    by (rule read_row_of) (simp add: sample_fragment_def nul_free_def)
  then show "rd_pc sample_fetched = R_fetch [sample_fragment]" "rd_seen sample_fetched = [stored_db 1, stored_db 1]"
    "rd_rows sample_fetched = [sql_row_of sample_fragment]"
    "th_state (rd_threads sample_fetched) = (race_server ''a'' sample_served, stored_db 1)"
    by (simp_all add: sample_fetched_def reading_own_def sample_rows)
qed

lemma sample_reading_end:
  "rd_pc sample_reading = R_sent (build_response (srv_cors_origin sample_server) (resp_ok (fragments_array [sample_fragment])))"
  "rd_end sample_reading = Some SQLITE_DONE"
  by (simp_all add: sample_reading_def reading_own_def sample_rows)

lemma sample_reading_steps:
  "(reading_step ref_engine ref_cursor sample_ctx sample_talk 2 sample_query)\<^sup>*\<^sup>* (reading_start sample_admitted) sample_reading"
proof -
  let ?step = "reading_step ref_engine ref_cursor sample_ctx sample_talk 2 sample_query"
  have "?step (reading_start sample_admitted) sample_begun" unfolding sample_begun_def by (rule own)
  moreover have "?step sample_begun sample_met"
    using others[of 1 2 ref_engine ref_cursor sample_ctx sample_talk sample_query sample_begun] by (simp add: sample_met_def)
  moreover have "?step sample_met sample_fetched" unfolding sample_fetched_def by (rule own)
  moreover have "?step sample_fetched sample_reading" unfolding sample_reading_def by (rule own)
  ultimately show ?thesis by (meson converse_rtranclp_into_rtranclp rtranclp.rtrancl_refl)
qed

lemma sample_reading_run:
  "reading_run ref_engine ref_cursor sample_ctx sample_talk 2 sample_query sample_admitted sample_reading"
  using poll_query[OF sample_poll_arrives sample_token] sample_pollable sample_reading_steps
  by (simp add: reading_run_def sample_admitted_eq sample_talk_jobs)

text \<open>The process in which this happens: two connections, and a purge that begins while the poll is read.\<close>

definition sample_life :: "int option \<Rightarrow> bool \<Rightarrow> nat \<Rightarrow> server_pc \<Rightarrow> life" where
  "sample_life fd run n sv = \<lparr>lf_fd = fd, lf_running = run, lf_stop = False, lf_conns = n, lf_calls = n, lf_leaked = 0,
     lf_server = sv, lf_main = Mn_wait\<rparr>"

lemma reach_sample_accept:
  assumes "life_reach (\<lambda>_. True) (sample_life (Some 3) True n Sv_test)"
  shows "life_reach (\<lambda>_. True) (sample_life (Some 3) True (Suc n) Sv_test)"
proof -
  have "life_reach (\<lambda>_. True) (sample_life (Some 3) True n Sv_call)"
    by (rule reach_step[OF assms test_running]) (simp_all add: sample_life_def)
  then have "life_reach (\<lambda>_. True) (sample_life (Some 3) True n Sv_accept)"
    by (rule reach_step[OF _ accept_blocks]) (simp_all add: sample_life_def)
  then show ?thesis by (rule reach_step[OF _ accept_ok]) (simp_all add: sample_life_def)
qed

lemma reach_sample_life: "life_reach (\<lambda>_. True) (sample_life (Some 3) True 2 Sv_test)"
proof -
  have "life_reach (\<lambda>_. True) (sample_life (Some 3) False 0 Sv_bind)"
    by (rule reach_step[OF rtranclp.rtrancl_refl socket_ok[of _ 3]]) (simp_all add: sample_life_def life_start_def)
  then have "life_reach (\<lambda>_. True) (sample_life (Some 3) False 0 Sv_listen)"
    by (rule reach_step[OF _ bind_ok]) (simp_all add: sample_life_def)
  then have "life_reach (\<lambda>_. True) (sample_life (Some 3) False 0 Sv_running)"
    by (rule reach_step[OF _ listen_ok]) (simp_all add: sample_life_def)
  then have "life_reach (\<lambda>_. True) (sample_life (Some 3) True 0 Sv_test)"
    by (rule reach_step[OF _ set_running]) (simp_all add: sample_life_def)
  from reach_sample_accept[OF reach_sample_accept[OF this]] show ?thesis by (simp add: numeral_2_eq_2)
qed

definition sample_meeting :: "cleanup_pc \<Rightarrow> ref_db threads \<Rightarrow> ref_db program" where
  "sample_meeting cl th = \<lparr>pg_life = sample_life (Some 3) True 2 Sv_test, pg_threads = th, pg_cleanup = cl,
     pg_round = 0, pg_killed = False\<rparr>"

lemma sample_meeting_alive [simp]: "objects_alive (sample_meeting cl th)"
  by (simp add: objects_alive_def sample_meeting_def sample_life_def)

lemma sample_meeting_reach:
  "program_reach ref_engine sample_ctx sample_env sample_server ref_empty (sample_meeting Cl_purge sample_admitted)"
proof -
  let ?step = "program_step ref_engine sample_ctx sample_env"
  let ?start = "threads_start (sample_server, ref_empty)"
  let ?sent = "threads_run ref_engine sample_ctx sample_talk (replicate 5 0) ?start"
  have sent: "sample_admitted = threads_next ref_engine sample_ctx sample_talk 2 ?sent"
    by (simp only: sample_admitted_def threads_run_append) (simp add: threads_run_def)
  have meet: "(sample_meeting cl th)\<lparr>pg_threads := th'\<rparr> = sample_meeting cl th'"
    "(sample_meeting cl th)\<lparr>pg_cleanup := cl'\<rparr> = sample_meeting cl' th" for cl cl' th th'
    by (simp_all add: sample_meeting_def)
  have few: "conn_job 0 = 0" "conn_job 1 = 2" "lf_conns (pg_life (sample_meeting cl th)) = 2" "\<not> env_epipe sample_env k"
    "\<not> lf_stop (pg_life (sample_meeting cl th))" "pg_threads (sample_meeting cl th) = th" "pg_cleanup (sample_meeting cl th) = cl" for cl th k
    by (simp_all add: sample_meeting_def sample_life_def sample_env_def)
  have "program_reach ref_engine sample_ctx sample_env sample_server ref_empty (sample_meeting Cl_test ?start)"
    using process_run[of "program_start sample_server ref_empty" sample_env "sample_life (Some 3) True 2 Sv_test" ref_engine sample_ctx]
      reach_sample_life by (simp add: program_start_def sample_meeting_def sample_wakes)
  moreover have "?step\<^sup>*\<^sup>* (sample_meeting Cl_test ?start) (sample_meeting Cl_test ?sent)"
    using connection_run[of "sample_meeting Cl_test ?start" 0 sample_env ref_engine sample_ctx 4] sample_program_4
    by (simp add: few meet del: replicate.simps)
  moreover have "?step (sample_meeting Cl_test ?sent) (sample_meeting Cl_test sample_admitted)"
    using connection_step[of "sample_meeting Cl_test ?sent" 1 sample_env ref_engine sample_ctx] sample_sent_eq
    by (simp add: few meet sent del: replicate.simps)
  moreover have "?step \<dots> (sample_meeting Cl_sleep sample_admitted)"
    using pg_cleanup_test[of "sample_meeting Cl_test sample_admitted" ref_engine sample_ctx sample_env] by (simp add: few meet)
  moreover have "?step \<dots> (sample_meeting Cl_purge sample_admitted)"
    using pg_cleanup_wake[of "sample_meeting Cl_sleep sample_admitted" ref_engine sample_ctx sample_env] by (simp add: few meet)
  ultimately show ?thesis by (meson rtranclp.rtrancl_into_rtrancl rtranclp_trans)
qed

lemma sample_process_run:
  "(process_step ref_engine ref_cursor sample_ctx sample_env 1 sample_query)\<^sup>*\<^sup>*
    (sample_meeting Cl_purge sample_admitted, reading_start sample_admitted) (sample_meeting Cl_purge sample_purging, sample_reading)"
proof -
  let ?step = "process_step ref_engine ref_cursor sample_ctx sample_env 1 sample_query"
  let ?p = "sample_meeting Cl_purge sample_admitted" and ?p' = "sample_meeting Cl_purge sample_purging"
  have kept: "(sample_meeting cl th)\<lparr>pg_killed := send_kills sample_env k b\<rparr> = sample_meeting cl th" for cl th k b
    by (simp add: sample_meeting_def sample_env_def send_kills_iff)
  have own: "?step (sample_meeting cl th, r) (sample_meeting cl th, sample_own r)" if "\<not> reader_done (rd_pc r)" for cl th r
    using reader[of "sample_meeting cl th" 1 r "sample_own r" ref_engine ref_cursor sample_query sample_ctx sample_env] that
    unfolding kept by simp (simp add: sample_meeting_def sample_life_def)
  have "program_step ref_engine sample_ctx sample_env ?p ?p'"
    using pg_purging[of ?p sample_purging ref_engine sample_ctx sample_env]
    by simp (simp add: sample_meeting_def threads_next_def sample_admitted_eq sample_talk_jobs)
  then have "?step (?p, sample_begun) (?p', sample_met)"
    using other_thread[of ref_engine sample_ctx sample_env ?p ?p' 1 1 ref_cursor sample_query sample_begun]
    by (simp add: sample_meeting_def sample_met_def)
  moreover have "?step (?p, reading_start sample_admitted) (?p, sample_begun)"
    unfolding sample_begun_def by (rule own) (simp add: reading_start_def)
  moreover have "?step (?p', sample_met) (?p', sample_fetched)" unfolding sample_fetched_def by (rule own) simp
  moreover have "?step (?p', sample_fetched) (?p', sample_reading)" unfolding sample_reading_def by (rule own) simp
  ultimately show ?thesis by (meson converse_rtranclp_into_rtranclp rtranclp.rtrancl_refl)
qed

interpretation sample_queries: query_store ref_engine ref_tbl ref_ok ref_cursor sample_ctx jobs sample_server sample_db
  for jobs
  by unfold_locales (simp_all add: sample_db_ok sample_server_routes)

section \<open>Properties\<close>

text \<open>
  C1. The service as a whole, from the configuration file on, in every run of the process: when a client has
  posted a fragment under an id that nobody else posts under, and was told neither 429 nor 500, then every
  poll of its chat that begins afterwards, with an earlier since, and whose query SQLite ends regularly, is
  answered with the fragment among others, unless a request or a purge removes it, whatever the threads of
  the process do while the rows are read.
\<close>

theorem process_delivery:
  assumes store: "sqlite_store eng tbl ok" "sqlite_cursor cur tbl ok" "ok db"
    and start: "main_setup eng files now0 args = Started srv ctx db"
    and run: "program_reach eng ctx env srv db p"
    and post: "env_conns env k1 = (t1, ip1, now1, bufs1)" "arrives bufs1 (post_bytes h1 f)" "valid_token ctx h1"
      "postable ctx f" "th_pcs (pg_threads p) (conn_job k1) = Sent b1"
      "b1 \<notin> {refusal srv, build_response (srv_cors_origin srv) (resp_server_error ''db error'')}"
    and fresh: "tbl db (frag_id f) = None"
      "\<forall>t g. t \<noteq> conn_job k1 \<and> system_effect ctx (program_jobs env t) = Some (Op_insert g) \<longrightarrow> c_str (frag_id g) \<noteq> frag_id f"
    and spared: "\<forall>t e. system_effect ctx (program_jobs env t) = Some e \<longrightarrow> spares (frag_id f) (f\<lparr>timestamp := now1\<rparr>) e"
    and poll: "env_conns env k2 = (t2, ip2, now2, bufs2)" "arrives bufs2 (poll_bytes h2 (chat_id f) s)"
      "valid_token ctx h2" "pollable (chat_id f) s" "th_pcs (pg_threads p) (conn_job k2) = Admitted"
      "(process_step eng cur ctx env k2 (''prepare get'', Select_chat (chat_id f) s))\<^sup>*\<^sup>* (p, reading_start (pg_threads p)) (p', r)"
      "rd_pc r = R_sent b2" "rd_end r = Some SQLITE_DONE"
    and since: "s < now1"
  shows "\<exists>fs. b2 = build_response (srv_cors_origin srv) (resp_ok (fragments_array fs)) \<and> f\<lparr>timestamp := now1\<rparr> \<in> set fs"
proof (rule concurrent_delivery[OF store _ program_threads[OF run] _ post(2-6) fresh spared _ poll(2-5) _ poll(7,8) since])
  show "srv_routes srv = app_routes eng ctx" by (rule main_started[OF start])
  show "program_jobs env (conn_job k1) = Sys_connection t1 ip1 now1 bufs1" using post(1) by (simp add: program_jobs_def)
  show "program_jobs env (conn_job k2) = Sys_connection t2 ip2 now2 bufs2" using poll(1) by (simp add: program_jobs_def)
  show "(reading_step eng cur ctx (program_jobs env) (conn_job k2) (''prepare get'', Select_chat (chat_id f) s))\<^sup>*\<^sup>*
      (reading_start (pg_threads p)) r"
    using process_reading[OF poll(6)] by simp
qed

theorem process_delivery_witness:
  "\<exists>fs. build_response (srv_cors_origin sample_server) (resp_ok (fragments_array [sample_fragment]))
      = build_response (srv_cors_origin sample_server) (resp_ok (fragments_array fs))
    \<and> sample_fragment\<lparr>timestamp := 1700000000\<rparr> \<in> set fs"
proof (rule process_delivery[OF ref.sqlite_store_axioms ref_cur.sqlite_cursor_axioms sample_db_ok(2) sample_setup
      sample_meeting_reach _ sample_post_arrives sample_token sample_postable _ sample_told_ok _ _ _ _ _ sample_token])
  have i: "frag_id sample_fragment = ''m-0''" and c: "chat_id sample_fragment = ''c''" by (simp_all add: sample_fragment_def)
  have th: "pg_threads (sample_meeting cl th) = th" for cl th by (simp add: sample_meeting_def)
  show "(process_step ref_engine ref_cursor sample_ctx sample_env 1 (''prepare get'', Select_chat (chat_id sample_fragment) 5))\<^sup>*\<^sup>*
      (sample_meeting Cl_purge sample_admitted, reading_start (pg_threads (sample_meeting Cl_purge sample_admitted)))
      (sample_meeting Cl_purge sample_purging, sample_reading)"
    unfolding c th by (rule sample_process_run)
  show "arrives [poll_bytes ''t'' ''c'' 5] (poll_bytes ''t'' (chat_id sample_fragment) 5)" "pollable (chat_id sample_fragment) 5"
    unfolding c by (rule sample_poll_arrives, rule sample_pollable)
  show "env_conns sample_env 0 = (0, ''ip'', 1700000000, [post_bytes ''t'' sample_fragment])"
    "env_conns sample_env 1 = (0, ''a'', 1700000020, [poll_bytes ''t'' ''c'' 5])" by (simp_all add: sample_env_def)
  show "\<forall>t g. t \<noteq> conn_job 0 \<and> system_effect sample_ctx (sample_talk t) = Some (Op_insert g)
      \<longrightarrow> c_str (frag_id g) \<noteq> frag_id sample_fragment"
    unfolding i using sample_talk_alone by simp
  show "\<forall>t e. system_effect sample_ctx (sample_talk t) = Some e
      \<longrightarrow> spares (frag_id sample_fragment) (sample_fragment\<lparr>timestamp := 1700000000\<rparr>) e"
    unfolding i sample_stamped by (rule sample_talk_spares)
  show "th_pcs (pg_threads (sample_meeting Cl_purge sample_admitted)) (conn_job 0) = Sent sample_told"
    "th_pcs (pg_threads (sample_meeting Cl_purge sample_admitted)) (conn_job 1) = Admitted"
    unfolding th by (simp_all add: sample_admitted_eq)
qed (simp_all add: sample_tbl sample_reading_end)

text \<open>
  Undisturbed, the steps of a reading thread are the handler: with the results that SQLite then gives to
  the query, it sends what the dispatch of the request answers.
\<close>

theorem reader_alone:
  assumes "request_query ctx req = Some (msg, st)" "sq_query eng st db = map Row rs @ [Stop rc]"
  shows "fold (reader_next cors) (sq_query eng st db) (reader_prepare eng cors (msg, st) db)
    = R_sent (build_response cors (fst (respond (app_routes eng ctx) now req db)))"
proof (cases "check_rc (sq_prepare eng st db) msg")
  case (Inl e)
  then show ?thesis by (simp only: reader_prepare_def fst_conv snd_conv sum.case sent_stays respond_query[OF assms(1)])
next
  case (Inr u)
  then show ?thesis
    by (simp only: reader_prepare_def fst_conv snd_conv sum.case assms(2) fetching respond_query[OF assms(1)] append_Nil)
qed

theorem reader_alone_witness:
  "fold (reader_next ''*'') (sq_query ref_engine (Select_chat ''c'' 5) sample_db) (reader_prepare ref_engine ''*'' sample_query sample_db)
    = R_sent (build_response ''*'' (fst (respond (app_routes ref_engine sample_ctx) 0
        (read_and_parse [poll_bytes ''t'' ''c'' 5]) sample_db)))"
proof (rule reader_alone[OF poll_query[OF sample_poll_arrives sample_token sample_pollable]])
  show "sq_query ref_engine (Select_chat ''c'' 5) sample_db = map Row [sql_row_of sample_fragment] @ [Stop SQLITE_DONE]"
    by (simp add: ref_engine_def ref_query_def sample_db_def ref_empty_def sample_fragment_def in_chat_def)
qed

text \<open>
  C14. A query that runs among the steps of any other threads is answered 500, or with fragments each of
  which matches and was stored before or posted by an authorised request; and when SQLite ends the query
  regularly, they include every matching fragment that was in the table when the query's thread began and
  that no request or purge removes.
\<close>

theorem query_concurrent:
  assumes "sqlite_store eng tbl ok" "sqlite_cursor cur tbl ok" "ok db" "srv_routes srv = app_routes eng ctx"
    and "threads_reach eng ctx jobs (srv, db) th0" "reading_run eng cur ctx jobs self (msg, st) th0 r" "rd_pc r = R_sent b"
  shows "b = build_response (srv_cors_origin srv) (resp_server_error ''db error'') \<and> rd_end r = None
    \<or> (\<exists>fs. b = build_response (srv_cors_origin srv) (resp_ok (fragments_array fs))
        \<and> (\<forall>f \<in> set fs. selects st f \<and> (tbl db (frag_id f) = Some f \<or> (\<exists>t ticks ip now bufs.
              jobs t = Sys_connection ticks ip now bufs \<and> post_valid ctx (read_and_parse bufs)
              \<and> f = bind_fragment (posted now (read_and_parse bufs)) \<and> timestamp f = now)))
        \<and> (rd_end r = Some SQLITE_DONE \<longrightarrow> (\<forall>i f. tbl (snd (th_state th0)) i = Some f \<and> selects st f
              \<and> (\<forall>t e. system_effect ctx (jobs t) = Some e \<longrightarrow> spares i f e) \<longrightarrow> f \<in> set fs)))"
proof -
  have "query_store eng tbl ok cur ctx srv db" by (intro query_store.intro query_store_axioms.intro assms)
  from query_store.reading_result[OF this assms(5-7)] show ?thesis
  proof (elim disjE exE conjE)
    fix fs
    assume fs: "b = build_response (srv_cors_origin srv) (resp_ok (fragments_array fs))"
      "\<forall>f \<in> set fs. selects st f \<and> (\<exists>th. threads_reach eng ctx jobs (srv, db) th \<and> tbl (snd (th_state th)) (frag_id f) = Some f)"
    have "selects st f \<and> (tbl db (frag_id f) = Some f \<or> (\<exists>t ticks ip now bufs.
        jobs t = Sys_connection ticks ip now bufs \<and> post_valid ctx (read_and_parse bufs)
        \<and> f = bind_fragment (posted now (read_and_parse bufs)) \<and> timestamp f = now))" if "f \<in> set fs" for f
      using fs(2) that sqlite_store.threads_posted[OF assms(1) _ assms(3,4)] by blast
    moreover assume "rd_end r = Some SQLITE_DONE \<longrightarrow> (\<forall>i f. tbl (snd (th_state th0)) i = Some f \<and> selects st f
        \<and> (\<forall>t e. system_effect ctx (jobs t) = Some e \<longrightarrow> spares i f e) \<longrightarrow> f \<in> set fs)"
    ultimately show ?thesis using fs(1) by blast
  qed simp
qed

theorem query_concurrent_witness:
  "\<exists>fs. build_response (srv_cors_origin sample_server) (resp_ok (fragments_array [sample_fragment]))
      = build_response (srv_cors_origin sample_server) (resp_ok (fragments_array fs))
    \<and> sample_fragment \<in> set fs"
proof -
  have sel: "selects (Select_chat ''c'' 5) sample_fragment" by (simp add: in_chat_def sample_fragment_def)
  from query_concurrent[OF ref.sqlite_store_axioms ref_cur.sqlite_cursor_axioms sample_db_ok(2) sample_server_routes
      sample_admitted_reach sample_reading_run sample_reading_end(1)]
  show ?thesis
  proof (elim disjE exE conjE)
    fix fs
    assume fs: "build_response (srv_cors_origin sample_server) (resp_ok (fragments_array [sample_fragment]))
      = build_response (srv_cors_origin sample_server) (resp_ok (fragments_array fs))"
    assume "rd_end sample_reading = Some SQLITE_DONE \<longrightarrow> (\<forall>i f. ref_tbl (snd (th_state sample_admitted)) i = Some f
      \<and> selects (Select_chat ''c'' 5) f \<and> (\<forall>t e. system_effect sample_ctx (sample_talk t) = Some e \<longrightarrow> spares i f e)
      \<longrightarrow> f \<in> set fs)"
    from this[THEN mp, OF sample_reading_end(2), THEN spec, of "''m-0''", THEN spec, of sample_fragment] sample_talk_spares sel
    have "sample_fragment \<in> set fs" by (simp add: sample_admitted_eq sample_stored)
    then show ?thesis using fs by blast
  qed (simp add: sample_reading_end)
qed

end
