(* ===== verification/Spec2Isabelle.thy ===== *)
theory Spec2Isabelle
  imports Base64 Utf8 Readers
begin

text \<open>
  The frag server: a verification development for the C++ backend of \<open>matt1309/frag\<close>.

  \<^bold>\<open>The program.\<close>  A frag server stores opaque message fragments for its clients.  A client POSTs a
  fragment as a JSON object to \<open>/api/fragments\<close>, polls the fragments of a chat with GET, reads those
  of a message and DELETEs them; each fragment expires after its time to live.  \<open>main\<close>
  (\<open>backend/src/main.cpp\<close>) reads a configuration, opens the SQLite database, starts a clean-up
  thread and an HTTP server; the server (\<open>server.cpp\<close>) gives every connection a thread that checks
  the rate limit, reads and parses one request, and dispatches it over the routes that
  \<open>register_routes\<close> (\<open>handlers.cpp\<close>) has added; the handlers check the token, scan the JSON body and
  call the class \<open>Database\<close> (\<open>database.cpp\<close>).

  \<^bold>\<open>The theories\<close>, from the bottom:
  \<^item> \<open>Prelude\<close>: bytes, the sizes of machine integers, list lemmas, the locale \<open>codec\<close>.
  \<^item> \<open>Cxx_Std\<close>: the parts of the C++ library that the sources use (\<open>std::string\<close> searches,
    \<open>stoi\<close>, \<open>stoll\<close>, \<open>stoull\<close>, decimal output); the numeric conversions return a sum, with the
    exception on the left.
  \<^item> \<open>Base64\<close>, \<open>Utils\<close>: \<open>utils.hpp\<close>.  The decoder of Base64 on 32-bit words, the others on bytes.
  \<^item> \<open>Rate_Limiter\<close>, \<open>Auth\<close>: \<open>rate_limiter.hpp\<close> (time in nanoseconds of the monotonic clock) and
    \<open>auth.hpp\<close>.
  \<^item> \<open>Database\<close>: \<open>database.hpp\<close> and \<open>database.cpp\<close> over a record \<open>'db sqlite\<close> of the SQLite calls, and
    the abstract store, a map from ids to fragments.  \<open>Store\<close>: the locale \<open>sqlite_store\<close>, SQLite's
    documented behaviour on the SQL texts of the source; in it every method refines an operation of
    the abstract store, whatever result codes SQLite returns; the locale \<open>store_machine\<close>, what its
    clients may rely on over runs.  \<open>Ref_Engine\<close>: an executable engine, with injected failures, that
    meets the locale.
  \<^item> \<open>Http\<close>: requests, responses, patterns, queries, the receive loop and the parser of \<open>server.cpp\<close>; a
    socket is the list of the blocks that \<open>recv\<close> returns.  \<open>Wire\<close>: framing and round trips.
  \<^item> \<open>Json\<close>: the scanning reader and the writer of \<open>handlers.cpp\<close>.  \<open>Json_Std\<close>: a reader for JSON as RFC
    8259 defines it, and its agreement with the bodies that the server writes.  \<open>Utf8\<close>: the encoding that
    RFC 8259 demands.
  \<^item> \<open>Server\<close>: routes, dispatch and \<open>handle_connection\<close>.  \<open>Handlers\<close>: the five handlers as functions
    of the clock, the request and the database state, and the locales \<open>guarded_handler\<close> and
    \<open>responder\<close> that they satisfy.
  \<^item> \<open>App\<close>: the routing table, and the one effect that a request has on the database.  \<open>Client\<close>: the bytes
    of the requests of a client, and what the connection that carries them does.  \<open>App_Props\<close>: the
    properties of single requests.  \<open>System\<close>: runs of the server, connections and purges in any order, as a
    store machine whose state is the server and the database.
  \<^item> \<open>Config\<close>, \<open>Startup\<close>: \<open>main.cpp\<close>.
  \<^item> \<open>Node\<close>: a modifying method as its single SQLite calls.  \<open>Threads\<close>: connection threads and the clean-up
    thread as steps, which are the calls of the limiter and of SQLite, interleaved on the shared limiter and
    database; \<open>thread_alone\<close> ties the steps to \<open>handle_connection\<close>.
  \<^item> \<open>Lifecycle\<close>: \<open>start\<close>, \<open>stop\<close> and the end of \<open>main\<close> as a step relation; each system call, and the
    creation of a connection's thread, succeeds or fails, and a call of \<open>accept\<close> on the open socket blocks until
    the environment wakes it.
  \<^item> \<open>Program\<close>: the whole process, which composes \<open>Lifecycle\<close> (main and server thread), \<open>Threads\<close> (a detached
    thread for each accepted connection) and the loop of the detached clean-up thread over one stop flag; it
    simulates both (locale \<open>simulation\<close> of \<open>Prelude\<close>).  A \<open>send\<close> that
    fails with EPIPE kills it by SIGPIPE, as POSIX defines it for the flags and the handlers of the source.
  \<^item> \<open>Readers\<close>: the query methods row by row.  A reading thread runs among the others; the locale
    \<open>sqlite_cursor\<close> is what SQLite promises of a query while the table changes, \<open>reader_alone\<close> ties the rows to
    the handlers, and \<open>process_step\<close> puts the reading thread into the whole process.

  \<^bold>\<open>What the theorems show.\<close>  C1 is the promise of the service, from the configuration file and the bytes that
  one client sends and is told to the bytes that another receives, in every run of the process; C2 to C5 are
  its single steps: post, poll, the fragments of a message, and delete over a connection.  They hold for
  fragments that the server's JSON scan reads back (\<open>postable\<close>: no quotes, backslashes, key names or NUL bytes in
  the texts) and for ids that a path can name (\<open>deletable\<close>).  C6 to C16 are about all interleavings of the
  threads and of the whole process, whatever bytes the clients choose: a fragment stays until it is deleted
  with a valid token or has expired; every fragment is the body of an authorised POST, with a token of the
  configuration file when \<open>main\<close> has set up the server; a stop ends a server that is between two calls of
  \<open>accept\<close> within a bound, but not one that waits for a client, and \<open>main\<close> may have destroyed by then what a
  connection's thread still uses; one thread that cannot be created ends the service; the effects are those of
  some sequential order (what the clients are told is not always true of it); a query among other threads gives
  what was stored, and all that stays; the rate is bounded.  C17 to C19: every connection is answered with a
  well-formed response, nothing happens without a token, and the routing table.  Then: framing, parsing, JSON,
  the configuration and the codecs are round trips; the handlers and the purge refine the abstract store; the
  clean-up stops.  The last theorems are about behaviour that the code cannot mean, for whole classes of
  inputs.  Adequacy of the step-wise models, that undisturbed they are the functions which the code has, is
  \<open>thread_alone\<close> in \<open>Threads\<close> and \<open>reader_alone\<close> in \<open>Readers\<close>.

  \<^bold>\<open>Bounds and termination.\<close>  Every loop of the source is a structural recursion or a \<open>function\<close> with
  its measure; no fuel is used.  Loops that wait for the environment (\<open>recv\<close>, \<open>accept\<close>, the clean-up
  thread) recurse over the list of what the environment delivers, or are steps of a relation.

  \<^bold>\<open>Hypotheses on code outside the repository.\<close>  Only SQLite: the locales \<open>sqlite_store\<close> and \<open>sqlite_cursor\<close>,
  as said.  The clocks, the random words of \<open>uuid4\<close>, the files, the connections in the order of their
  acceptance, the calls of \<open>accept\<close> that return, the calls of \<open>send\<close> that fail with EPIPE, and the blocks of a
  socket are arguments.

  \<^bold>\<open>Not modelled.\<close>  The system calls themselves (sockets, time-outs, partial results of \<open>send\<close>), the Windows
  variants, messages to \<open>cout\<close> and \<open>cerr\<close> (but for the results that the clean-up thread logs), memory
  exhaustion, C++ data races, and what the detached threads do after \<open>main\<close> has destroyed the objects that
  they use, which is undefined.  An \<open>accept\<close> in progress when the socket is closed may fail, deliver a
  connection or never return (on Linux closing alone does not wake it): that is the environment's.  The count
  of the limiter is unbounded where the source has an \<open>int\<close>, which makes no difference below 2 to the 31 calls
  of an address in a window, and \<open>base64_decode\<close> wraps at 32 bits where C++ leaves the overflow undefined.
  In \<open>Threads\<close> and \<open>Program\<close> a query is one step, as are the receive loop and a locked section, so that the
  number of steps of a thread there (\<open>job_left\<close>, on which the bound of the shutdown rests) is that of the model;
  SQLite does not bound the rows of a query into whose table others insert, and \<open>Readers\<close> does
  without such a bound.  The JavaScript client and the scripts are outside the development; where a theorem
  speaks of a client, it states the client's message.
\<close>

end
